theory Spec2Isabelle
  imports Complex_Main
begin

section \<open>Data model of \<^verbatim>\<open>dbc_editor.py\<close>\<close>

text \<open>
  The editor keeps messages and signals as Python dictionaries. A signal dictionary has
  the eleven keys written by \<^verbatim>\<open>load_dbc_file\<close>; a message dictionary has the six
  keys read by the editor. Keys that only the dialogs add (\<^verbatim>\<open>byte_order\<close>,
  \<^verbatim>\<open>cycle_time\<close>, \<^verbatim>\<open>message_type\<close>) are never read by the editor and are not modelled.
  Floating-point fields are opaque data that the editor only stores and compares; they are
  modelled as reals (no NaN).

  The editor mutates two kinds of list objects in place: the list of messages of the
  working copy and the list of signals of a message. A list of signals can be reached from
  several message dictionaries (a shallow \<^verbatim>\<open>dict(m)\<close> keeps the reference), so lists of
  signals live in an explicit store and a message holds a reference. Signal dictionaries,
  sender lists and receiver lists are never mutated in place by the editor or its dialogs
  and are modelled by their values. The two lists of messages are always distinct objects
  (every assignment of \<^verbatim>\<open>_original_data\<close> and \<^verbatim>\<open>_modified_data\<close> builds a new list)
  and are modelled by their values as well.
\<close>

type_synonym ref = nat

record signal =
  s_name :: string
  s_start_bit :: int
  s_length :: int
  s_is_signed :: bool
  s_scale :: real
  s_offset :: real
  s_minimum :: "real option"
  s_maximum :: "real option"
  s_unit :: string
  s_receivers :: "string list"
  s_comments :: string

record message =
  m_name :: string
  m_frame_id :: int
  m_length :: int
  m_senders :: "string list"
  m_signals :: ref
  m_comments :: string

text \<open>A message with its list of signals read out of the store: what Python's \<^verbatim>\<open>==\<close> on
  two message dictionaries compares, and what the parser delivers.\<close>

record message_v =
  v_name :: string
  v_frame_id :: int
  v_length :: int
  v_senders :: "string list"
  v_signals :: "signal list"
  v_comments :: string

text \<open>The editor object. \<^verbatim>\<open>None\<close> for \<^verbatim>\<open>_original_data\<close> or \<^verbatim>\<open>_modified_data\<close> is
  \<open>None\<close>; the dictionary \<^verbatim>\<open>{'messages': ms}\<close> is \<open>Some ms\<close> (a dictionary with one key
  is truthy even when the list is empty).\<close>

record editor =
  file_path :: "string option"
  original_data :: "message list option"
  modified_data :: "message list option"
  store :: "ref \<Rightarrow> signal list"
  next_ref :: ref

datatype load_cause = NotFound string | BadExtension | ParseFailure

datatype save_cause = NoPath | CopyFailure | BuildFailure | OpenFailure
  | SerializeFailure | WriteFailure

datatype error =
    InvalidMessageIndex
  | InvalidSignalIndex
  | InvalidMessageMove
  | InvalidSignalMove
  | IndexError
  | FailedToLoad load_cause
  | FailedToSave save_cause

definition msg_val :: "(ref \<Rightarrow> signal list) \<Rightarrow> message \<Rightarrow> message_v" where
  "msg_val h m = \<lparr>v_name = m_name m, v_frame_id = m_frame_id m, v_length = m_length m,
     v_senders = m_senders m, v_signals = h (m_signals m), v_comments = m_comments m\<rparr>"

text \<open>The message dictionary with the fields of \<open>v\<close> whose list of signals is the object
  \<open>r\<close>.\<close>

definition msg_at :: "message_v \<Rightarrow> ref \<Rightarrow> message" where
  "msg_at v r = \<lparr>m_name = v_name v, m_frame_id = v_frame_id v, m_length = v_length v,
     m_senders = v_senders v, m_signals = r, m_comments = v_comments v\<rparr>"

definition working :: "editor \<Rightarrow> message list" where
  "working st = (case modified_data st of None \<Rightarrow> [] | Some ms \<Rightarrow> ms)"

section \<open>Python list indexing\<close>

text \<open>\<^verbatim>\<open>xs[i]\<close> on a list of length \<open>n\<close>: a negative index counts from the end, and an index
  outside \<open>-n .. n-1\<close> raises \<^verbatim>\<open>IndexError\<close>.\<close>

definition py_index :: "nat \<Rightarrow> int \<Rightarrow> nat option" where
  "py_index n i =
     (if 0 \<le> i \<and> i < int n then Some (nat i)
      else if i < 0 \<and> - int n \<le> i then Some (nat (int n + i))
      else None)"

definition del_at :: "'a list \<Rightarrow> nat \<Rightarrow> 'a list" where
  "del_at xs i = take i xs @ drop (Suc i) xs"

definition swap_at :: "'a list \<Rightarrow> nat \<Rightarrow> nat \<Rightarrow> 'a list" where
  "swap_at xs i j = xs[i := xs ! j, j := xs ! i]"

section \<open>Message operations\<close>

text \<open>Every operation returns its result, or the exception it raises, together with the
  editor afterwards. \<^verbatim>\<open>update_message\<close> and \<^verbatim>\<open>delete_message\<close> test
  \<^verbatim>\<open>not self._modified_data or idx >= len(self._modified_data['messages'])\<close> and then index
  the list, so a negative index reaches Python's list indexing.\<close>

definition add_message :: "editor \<Rightarrow> message \<Rightarrow> (error + unit) \<times> editor" where
  "add_message st message =
     (let ms = (case modified_data st of None \<Rightarrow> [] | Some ms \<Rightarrow> ms)
      in (Inr (), st\<lparr>modified_data := Some (ms @ [message])\<rparr>))"

definition update_message :: "editor \<Rightarrow> int \<Rightarrow> message \<Rightarrow> (error + unit) \<times> editor" where
  "update_message st idx message =
     (case modified_data st of
        None \<Rightarrow> (Inl InvalidMessageIndex, st)
      | Some ms \<Rightarrow>
          if idx \<ge> int (length ms) then (Inl InvalidMessageIndex, st)
          else (case py_index (length ms) idx of
                  None \<Rightarrow> (Inl IndexError, st)
                | Some i \<Rightarrow> (Inr (), st\<lparr>modified_data := Some (ms[i := message])\<rparr>)))"

definition delete_message :: "editor \<Rightarrow> int \<Rightarrow> (error + unit) \<times> editor" where
  "delete_message st idx =
     (case modified_data st of
        None \<Rightarrow> (Inl InvalidMessageIndex, st)
      | Some ms \<Rightarrow>
          if idx \<ge> int (length ms) then (Inl InvalidMessageIndex, st)
          else (case py_index (length ms) idx of
                  None \<Rightarrow> (Inl IndexError, st)
                | Some i \<Rightarrow> (Inr (), st\<lparr>modified_data := Some (del_at ms i)\<rparr>)))"

definition move_message_up :: "editor \<Rightarrow> int \<Rightarrow> (error + int) \<times> editor" where
  "move_message_up st idx =
     (case modified_data st of
        None \<Rightarrow> (Inl InvalidMessageMove, st)
      | Some ms \<Rightarrow>
          if idx \<le> 0 \<or> idx \<ge> int (length ms) then (Inl InvalidMessageMove, st)
          else (Inr (idx - 1),
                st\<lparr>modified_data := Some (swap_at ms (nat idx - 1) (nat idx))\<rparr>))"

definition move_message_down :: "editor \<Rightarrow> int \<Rightarrow> (error + int) \<times> editor" where
  "move_message_down st idx =
     (case modified_data st of
        None \<Rightarrow> (Inl InvalidMessageMove, st)
      | Some ms \<Rightarrow>
          if idx < 0 \<or> idx \<ge> int (length ms) - 1 then (Inl InvalidMessageMove, st)
          else (Inr (idx + 1),
                st\<lparr>modified_data := Some (swap_at ms (nat idx + 1) (nat idx))\<rparr>))"

section \<open>Unique names for duplicates\<close>

text \<open>\<^verbatim>\<open>f"{base_name}_{suffix}"\<close>: the decimal rendering of a non-negative Python integer.\<close>

definition digit_char :: "nat \<Rightarrow> char" where
  "digit_char d = ''0123456789'' ! d"

fun str_nat :: "nat \<Rightarrow> string" where
  "str_nat n = (if n < 10 then [digit_char n] else str_nat (n div 10) @ [digit_char (n mod 10)])"

declare str_nat.simps [simp del]

definition suffixed :: "string \<Rightarrow> nat \<Rightarrow> string" where
  "suffixed base_name k = base_name @ ''_'' @ str_nat k"

lemma digit_char_inj: "a < 10 \<Longrightarrow> b < 10 \<Longrightarrow> digit_char a = digit_char b \<Longrightarrow> a = b"
proof -
  assume a: "a < 10" and b: "b < 10" and e: "digit_char a = digit_char b"
  have d: "distinct ''0123456789''" by simp
  have "a < length ''0123456789''" and "b < length ''0123456789''" using a b by simp_all
  with d e show "a = b" unfolding digit_char_def by (simp only: nth_eq_iff_index_eq)
qed

lemma str_nat_not_Nil: "str_nat n \<noteq> []"
  by (subst str_nat.simps) simp

lemma str_nat_length_small: "n < 10 \<Longrightarrow> length (str_nat n) = 1"
  by (subst str_nat.simps) simp

lemma str_nat_length_large: "\<not> n < 10 \<Longrightarrow> 2 \<le> length (str_nat n)"
proof -
  assume "\<not> n < 10"
  then have "str_nat n = str_nat (n div 10) @ [digit_char (n mod 10)]"
    by (subst str_nat.simps) simp
  moreover have "1 \<le> length (str_nat (n div 10))"
    using str_nat_not_Nil [of "n div 10"] by (cases "str_nat (n div 10)") simp_all
  ultimately show ?thesis by simp
qed

lemma str_nat_inj: "str_nat n = str_nat m \<Longrightarrow> n = m"
proof (induction n arbitrary: m rule: str_nat.induct)
  case (1 n)
  show ?case
  proof (cases "n < 10")
    case small: True
    have "m < 10"
    proof (rule ccontr)
      assume "\<not> m < 10"
      then have "2 \<le> length (str_nat m)" by (rule str_nat_length_large)
      moreover have "length (str_nat n) = 1" using small by (rule str_nat_length_small)
      ultimately show False using "1.prems" by simp
    qed
    moreover have "str_nat n = [digit_char n]" using small by (subst str_nat.simps) simp
    moreover have "m < 10 \<Longrightarrow> str_nat m = [digit_char m]" by (subst str_nat.simps) simp
    ultimately show ?thesis using "1.prems" small by (auto dest: digit_char_inj)
  next
    case large: False
    have m_large: "\<not> m < 10"
    proof
      assume "m < 10"
      then have "length (str_nat m) = 1" by (rule str_nat_length_small)
      moreover have "2 \<le> length (str_nat n)" using large by (rule str_nat_length_large)
      ultimately show False using "1.prems" by simp
    qed
    have en: "str_nat n = str_nat (n div 10) @ [digit_char (n mod 10)]"
      using large by (subst str_nat.simps) simp
    have em: "str_nat m = str_nat (m div 10) @ [digit_char (m mod 10)]"
      using m_large by (subst str_nat.simps) simp
    from en em "1.prems" have hi: "str_nat (n div 10) = str_nat (m div 10)"
      and lo: "digit_char (n mod 10) = digit_char (m mod 10)" by simp_all
    from "1.IH" [OF large hi] have "n div 10 = m div 10" .
    moreover have "n mod 10 = m mod 10"
      by (rule digit_char_inj [OF _ _ lo]) simp_all
    ultimately show ?thesis by (metis div_mult_mod_eq)
  qed
qed

lemma suffixed_inj: "suffixed b j = suffixed b k \<Longrightarrow> j = k"
  by (simp add: suffixed_def str_nat_inj)

text \<open>The loop \<^verbatim>\<open>while candidate in existing_names: candidate = f"{base_name}_{suffix}";
  suffix += 1\<close>. It ends because the candidates are pairwise different and the set of
  names is finite.\<close>

definition pending :: "string \<Rightarrow> string list \<Rightarrow> nat \<Rightarrow> string set" where
  "pending base_name existing k = {n \<in> set existing. \<exists>j\<ge>k. n = suffixed base_name j}"

lemma pending_finite: "finite (pending b e k)"
  by (simp add: pending_def)

lemma pending_subset: "pending b e (Suc k) \<subseteq> pending b e k"
proof
  fix n
  assume "n \<in> pending b e (Suc k)"
  then obtain j where "n \<in> set e" and "Suc k \<le> j" and "n = suffixed b j"
    by (auto simp: pending_def)
  then have "n \<in> set e \<and> k \<le> j \<and> n = suffixed b j" by simp
  then show "n \<in> pending b e k" unfolding pending_def by blast
qed

lemma pending_mono: "card (pending b e (Suc k)) \<le> card (pending b e k)"
  by (rule card_mono [OF pending_finite pending_subset])

lemma pending_less:
  assumes "suffixed b k \<in> set e"
  shows "card (pending b e (Suc k)) < card (pending b e k)"
proof (rule psubset_card_mono [OF pending_finite])
  have "suffixed b k \<in> pending b e k" using assms by (auto simp: pending_def)
  moreover have "suffixed b k \<notin> pending b e (Suc k)"
  proof
    assume "suffixed b k \<in> pending b e (Suc k)"
    then obtain j where "Suc k \<le> j" and "suffixed b k = suffixed b j"
      by (auto simp: pending_def)
    then show False using suffixed_inj [of b k j] by simp
  qed
  moreover have "pending b e (Suc k) \<subseteq> pending b e k" by (rule pending_subset)
  ultimately show "pending b e (Suc k) \<subset> pending b e k" by blast
qed

function unique_name_loop :: "string \<Rightarrow> string list \<Rightarrow> string \<Rightarrow> nat \<Rightarrow> string" where
  "unique_name_loop base_name existing_names candidate suffix =
     (if candidate \<in> set existing_names
      then unique_name_loop base_name existing_names (suffixed base_name suffix) (Suc suffix)
      else candidate)"
  by pat_completeness auto
termination
proof (relation "measure (\<lambda>(b, e, c, k). 2 * card (pending b e k) + (if c \<in> set e then 1 else 0))")
  show "wf (measure (\<lambda>(b, e, c, k). 2 * card (pending b e k) + (if c \<in> set e then 1 else 0)))"
    by simp
next
  fix base_name :: string and existing_names :: "string list" and candidate :: string
    and suffix :: nat
  assume c: "candidate \<in> set existing_names"
  show "((base_name, existing_names, suffixed base_name suffix, Suc suffix),
         (base_name, existing_names, candidate, suffix))
        \<in> measure (\<lambda>(b, e, c, k). 2 * card (pending b e k) + (if c \<in> set e then 1 else 0))"
  proof (cases "suffixed base_name suffix \<in> set existing_names")
    case True
    from pending_less [OF True] show ?thesis using c by simp
  next
    case False
    with pending_mono [of base_name existing_names suffix] show ?thesis using c by simp
  qed
qed

declare unique_name_loop.simps [simp del]

definition unique_name :: "string \<Rightarrow> string list \<Rightarrow> string" where
  "unique_name base_name existing_names =
     unique_name_loop base_name existing_names (suffixed base_name 1) 2"

text \<open>\<^verbatim>\<open>duplicate_message\<close> builds a new dictionary from the six fields of the original,
  with a new list \<^verbatim>\<open>[dict(sig) for sig in original.get('signals', [])]\<close> of copies of the
  signals, renames it and appends it.\<close>

definition duplicate_message :: "editor \<Rightarrow> int \<Rightarrow> (error + int) \<times> editor" where
  "duplicate_message st idx =
     (case modified_data st of
        None \<Rightarrow> (Inl InvalidMessageIndex, st)
      | Some ms \<Rightarrow>
          if idx < 0 \<or> idx \<ge> int (length ms) then (Inl InvalidMessageIndex, st)
          else
            (let original = ms ! nat idx;
                 r = next_ref st;
                 copied = store st (m_signals original);
                 candidate = unique_name (m_name original) (map m_name ms);
                 new_message = \<lparr>m_name = candidate, m_frame_id = m_frame_id original,
                   m_length = m_length original, m_senders = m_senders original,
                   m_signals = r, m_comments = m_comments original\<rparr>;
                 ms' = ms @ [new_message]
             in (Inr (int (length ms') - 1),
                 st\<lparr>modified_data := Some ms', store := (store st)(r := copied),
                    next_ref := Suc r\<rparr>)))"

section \<open>Signal operations\<close>

text \<open>The list of signals \<^verbatim>\<open>self._modified_data['messages'][msg_idx]['signals']\<close> is changed
  in place: the store is updated at the reference that the message holds.\<close>

definition add_signal :: "editor \<Rightarrow> int \<Rightarrow> signal \<Rightarrow> (error + unit) \<times> editor" where
  "add_signal st msg_idx signal =
     (case modified_data st of
        None \<Rightarrow> (Inl InvalidMessageIndex, st)
      | Some ms \<Rightarrow>
          if msg_idx \<ge> int (length ms) then (Inl InvalidMessageIndex, st)
          else (case py_index (length ms) msg_idx of
                  None \<Rightarrow> (Inl IndexError, st)
                | Some i \<Rightarrow>
                    (let r = m_signals (ms ! i)
                     in (Inr (), st\<lparr>store := (store st)(r := store st r @ [signal])\<rparr>))))"

definition update_signal :: "editor \<Rightarrow> int \<Rightarrow> int \<Rightarrow> signal \<Rightarrow> (error + unit) \<times> editor" where
  "update_signal st msg_idx sig_idx signal =
     (case modified_data st of
        None \<Rightarrow> (Inl InvalidMessageIndex, st)
      | Some ms \<Rightarrow>
          if msg_idx \<ge> int (length ms) then (Inl InvalidMessageIndex, st)
          else (case py_index (length ms) msg_idx of
                  None \<Rightarrow> (Inl IndexError, st)
                | Some i \<Rightarrow>
                    (let r = m_signals (ms ! i); signals = store st r
                     in if sig_idx \<ge> int (length signals) then (Inl InvalidSignalIndex, st)
                        else (case py_index (length signals) sig_idx of
                                None \<Rightarrow> (Inl IndexError, st)
                              | Some j \<Rightarrow>
                                  (Inr (), st\<lparr>store := (store st)(r := signals[j := signal])\<rparr>)))))"

definition delete_signal :: "editor \<Rightarrow> int \<Rightarrow> int \<Rightarrow> (error + unit) \<times> editor" where
  "delete_signal st msg_idx sig_idx =
     (case modified_data st of
        None \<Rightarrow> (Inl InvalidMessageIndex, st)
      | Some ms \<Rightarrow>
          if msg_idx \<ge> int (length ms) then (Inl InvalidMessageIndex, st)
          else (case py_index (length ms) msg_idx of
                  None \<Rightarrow> (Inl IndexError, st)
                | Some i \<Rightarrow>
                    (let r = m_signals (ms ! i); signals = store st r
                     in if sig_idx \<ge> int (length signals) then (Inl InvalidSignalIndex, st)
                        else (case py_index (length signals) sig_idx of
                                None \<Rightarrow> (Inl IndexError, st)
                              | Some j \<Rightarrow>
                                  (Inr (), st\<lparr>store := (store st)(r := del_at signals j)\<rparr>)))))"

definition duplicate_signal :: "editor \<Rightarrow> int \<Rightarrow> int \<Rightarrow> (error + int) \<times> editor" where
  "duplicate_signal st msg_idx sig_idx =
     (case modified_data st of
        None \<Rightarrow> (Inl InvalidMessageIndex, st)
      | Some ms \<Rightarrow>
          if msg_idx < 0 \<or> msg_idx \<ge> int (length ms) then (Inl InvalidMessageIndex, st)
          else
            (let r = m_signals (ms ! nat msg_idx); signals = store st r
             in if sig_idx < 0 \<or> sig_idx \<ge> int (length signals) then (Inl InvalidSignalIndex, st)
                else
                  (let original = signals ! nat sig_idx;
                       candidate = unique_name (s_name original) (map s_name signals);
                       new_signal = original\<lparr>s_name := candidate\<rparr>;
                       signals' = signals @ [new_signal]
                   in (Inr (int (length signals') - 1),
                       st\<lparr>store := (store st)(r := signals')\<rparr>))))"

definition move_signal_up :: "editor \<Rightarrow> int \<Rightarrow> int \<Rightarrow> (error + int) \<times> editor" where
  "move_signal_up st msg_idx sig_idx =
     (case modified_data st of
        None \<Rightarrow> (Inl InvalidMessageIndex, st)
      | Some ms \<Rightarrow>
          if msg_idx < 0 \<or> msg_idx \<ge> int (length ms) then (Inl InvalidMessageIndex, st)
          else
            (let r = m_signals (ms ! nat msg_idx); signals = store st r
             in if sig_idx \<le> 0 \<or> sig_idx \<ge> int (length signals) then (Inl InvalidSignalMove, st)
                else (Inr (sig_idx - 1),
                      st\<lparr>store := (store st)
                           (r := swap_at signals (nat sig_idx - 1) (nat sig_idx))\<rparr>)))"

definition move_signal_down :: "editor \<Rightarrow> int \<Rightarrow> int \<Rightarrow> (error + int) \<times> editor" where
  "move_signal_down st msg_idx sig_idx =
     (case modified_data st of
        None \<Rightarrow> (Inl InvalidMessageIndex, st)
      | Some ms \<Rightarrow>
          if msg_idx < 0 \<or> msg_idx \<ge> int (length ms) then (Inl InvalidMessageIndex, st)
          else
            (let r = m_signals (ms ! nat msg_idx); signals = store st r
             in if sig_idx < 0 \<or> sig_idx \<ge> int (length signals) - 1
                then (Inl InvalidSignalMove, st)
                else (Inr (sig_idx + 1),
                      st\<lparr>store := (store st)
                           (r := swap_at signals (nat sig_idx + 1) (nat sig_idx))\<rparr>)))"

section \<open>Change tracking\<close>

text \<open>The body of the outer \<^verbatim>\<open>for\<close> loop of \<^verbatim>\<open>has_changes\<close> over
  \<^verbatim>\<open>zip(original, modified)\<close>: name and frame id, then the number of signals, then the
  signals pairwise. With every key present no step raises, so the JSON fallback of the
  \<^verbatim>\<open>except\<close> branch is never entered.\<close>

fun messages_differ :: "(ref \<Rightarrow> signal list) \<Rightarrow> message list \<Rightarrow> message list \<Rightarrow> bool" where
  "messages_differ h (orig_msg # origs) (mod_msg # mods) =
     (if m_name orig_msg \<noteq> m_name mod_msg \<or> m_frame_id orig_msg \<noteq> m_frame_id mod_msg
      then True
      else if length (h (m_signals orig_msg)) \<noteq> length (h (m_signals mod_msg)) then True
      else if list_ex (\<lambda>(orig_sig, mod_sig). orig_sig \<noteq> mod_sig)
                (zip (h (m_signals orig_msg)) (h (m_signals mod_msg)))
      then True
      else messages_differ h origs mods)"
| "messages_differ h _ _ = False"

definition has_changes :: "editor \<Rightarrow> bool" where
  "has_changes st =
     (case original_data st of
        None \<Rightarrow> False
      | Some origs \<Rightarrow>
          (case modified_data st of
             None \<Rightarrow> False
           | Some mods \<Rightarrow>
               if length origs \<noteq> length mods then True
               else messages_differ (store st) origs mods))"

text \<open>A Python dictionary built by a comprehension: keys keep the position of their first
  occurrence, a later entry with the same key replaces the value.\<close>

fun dict_set :: "'k \<Rightarrow> 'v \<Rightarrow> ('k \<times> 'v) list \<Rightarrow> ('k \<times> 'v) list" where
  "dict_set k v [] = [(k, v)]"
| "dict_set k v ((k', v') # d) = (if k' = k then (k, v) # d else (k', v') # dict_set k v d)"

definition dict_of :: "('k \<times> 'v) list \<Rightarrow> ('k \<times> 'v) list" where
  "dict_of kvs = foldl (\<lambda>d (k, v). dict_set k v d) [] kvs"

definition keys :: "('k \<times> 'v) list \<Rightarrow> 'k list" where
  "keys d = map fst d"

definition qualified_name :: "string \<Rightarrow> string \<Rightarrow> string" where
  "qualified_name msg_name sig_name = msg_name @ ''.'' @ sig_name"

datatype summary =
    NoChanges
  | Changes (added_messages: "string list") (deleted_messages: "string list")
      (modified_messages: "string list") (added_signals: "string list")
      (deleted_signals: "string list") (modified_signals: "string list")

text \<open>The messages of the working copy, keyed by name, that are also in the original and
  compare unequal to it, each with its original: the pairs for which the body of
  \<^verbatim>\<open>if mod_msg != orig_msg\<close> runs, in the order of the loop.\<close>

definition modified_pairs ::
  "(ref \<Rightarrow> signal list) \<Rightarrow> (string \<times> message) list \<Rightarrow> (string \<times> message) list
     \<Rightarrow> (string \<times> message_v \<times> message_v) list" where
  "modified_pairs h orig_d mod_d =
     concat (map (\<lambda>(msg_name, mod_msg).
        (case map_of orig_d msg_name of
           None \<Rightarrow> []
         | Some orig_msg \<Rightarrow>
             if msg_val h mod_msg \<noteq> msg_val h orig_msg
             then [(msg_name, msg_val h orig_msg, msg_val h mod_msg)] else [])) mod_d)"

definition messages_of :: "message list option \<Rightarrow> message list" where
  "messages_of d = (case d of None \<Rightarrow> [] | Some ms \<Rightarrow> ms)"

text \<open>When \<^verbatim>\<open>has_changes\<close> is true both snapshots are present, so \<open>messages_of\<close> reads
  \<^verbatim>\<open>self._original_data['messages']\<close> and \<^verbatim>\<open>self._modified_data['messages']\<close>.\<close>

definition get_changes_summary :: "editor \<Rightarrow> summary" where
  "get_changes_summary st =
     (if \<not> has_changes st then NoChanges
      else
        (let h = store st;
             orig_d = dict_of (map (\<lambda>m. (m_name m, m)) (messages_of (original_data st)));
             mod_d = dict_of (map (\<lambda>m. (m_name m, m)) (messages_of (modified_data st)));
             changed = modified_pairs h orig_d mod_d;
             sigs = (\<lambda>v. dict_of (map (\<lambda>s. (s_name s, s)) (v_signals v)))
         in Changes
              [n \<leftarrow> keys mod_d. n \<notin> set (keys orig_d)]
              [n \<leftarrow> keys orig_d. n \<notin> set (keys mod_d)]
              (map fst changed)
              (concat (map (\<lambda>(msg_name, orig_msg, mod_msg).
                 [qualified_name msg_name sig_name. sig_name \<leftarrow> keys (sigs mod_msg),
                    sig_name \<notin> set (keys (sigs orig_msg))]) changed))
              (concat (map (\<lambda>(msg_name, orig_msg, mod_msg).
                 [qualified_name msg_name sig_name. sig_name \<leftarrow> keys (sigs orig_msg),
                    sig_name \<notin> set (keys (sigs mod_msg))]) changed))
              (concat (map (\<lambda>(msg_name, orig_msg, mod_msg).
                 [qualified_name msg_name sig_name. (sig_name, mod_sig) \<leftarrow> sigs mod_msg,
                    map_of (sigs orig_msg) sig_name \<noteq> None,
                    Some mod_sig \<noteq> map_of (sigs orig_msg) sig_name]) changed))))"

text \<open>\<^verbatim>\<open>reset_changes\<close>: the working copy becomes
  \<^verbatim>\<open>[dict(m) for m in self._original_data['messages']]\<close>, new dictionaries that hold the
  lists of signals of the original.\<close>

definition reset_changes :: "editor \<Rightarrow> editor" where
  "reset_changes st =
     (case original_data st of
        None \<Rightarrow> st
      | Some origs \<Rightarrow> st\<lparr>modified_data := Some origs\<rparr>)"

definition create_new_dbc :: "editor \<Rightarrow> editor" where
  "create_new_dbc st = st\<lparr>file_path := None, original_data := Some [], modified_data := Some []\<rparr>"

definition init :: editor where
  "init = \<lparr>file_path = None, original_data = None, modified_data = None,
     store = (\<lambda>_. []), next_ref = 0\<rparr>"

section \<open>Loading and saving\<close>

text \<open>The file system is a map from paths to file contents; a path exists when the map
  has it (directories are not modelled). The DBC library and the
  operating system are outside the repository; what they return, and whether they raise,
  is a parameter of the model. \<open>load_file\<close> is \<^verbatim>\<open>cantools.database.load_file\<close> followed by
  the flattening of its objects into dictionaries (\<open>None\<close> when either raises).
  \<open>build_raises\<close> says whether the construction of the library's \<^verbatim>\<open>Signal\<close> and
  \<^verbatim>\<open>Message\<close> objects raises for the messages of the working copy (each with its
  \<^verbatim>\<open>is_extended_frame\<close> flag), and \<open>as_dbc_string\<close> is the text that the serializer
  returns for the database built from them (\<open>None\<close> when it raises).
  \<open>write_raises = Some k\<close> says that \<^verbatim>\<open>f.write\<close> raises after \<open>k\<close> characters have reached
  the file.\<close>

type_synonym fs = "string \<rightharpoonup> string"

record env =
  load_file :: "string \<Rightarrow> message_v list option"
  build_raises :: "(message_v \<times> bool) list \<Rightarrow> bool"
  as_dbc_string :: "(message_v \<times> bool) list \<Rightarrow> string option"
  copy2_raises :: bool
  open_raises :: bool
  write_raises :: "nat option"
  remove_raises :: bool

text \<open>\<^verbatim>\<open>str.lower\<close> on a path: the letters \<open>A\<close> to \<open>Z\<close> become \<open>a\<close> to \<open>z\<close>. No other character
  changes into one of the characters of \<^verbatim>\<open>.dbc\<close>.\<close>

definition lower_char :: "char \<Rightarrow> char" where
  "lower_char c =
     (case map_of (zip ''ABCDEFGHIJKLMNOPQRSTUVWXYZ'' ''abcdefghijklmnopqrstuvwxyz'') c of
        None \<Rightarrow> c
      | Some l \<Rightarrow> l)"

definition lower :: "string \<Rightarrow> string" where
  "lower s = map lower_char s"

definition endswith :: "string \<Rightarrow> string \<Rightarrow> bool" where
  "endswith s suf = (length suf \<le> length s \<and> drop (length s - length suf) s = suf)"

text \<open>Fresh list objects for the signals of each message: \<^verbatim>\<open>signals_data = []\<close> in the
  first pass of \<^verbatim>\<open>load_dbc_file\<close>, the inner list comprehension in the copy.\<close>

fun alloc_messages ::
  "message_v list \<Rightarrow> (ref \<Rightarrow> signal list) \<Rightarrow> ref \<Rightarrow> message list \<times> (ref \<Rightarrow> signal list) \<times> ref" where
  "alloc_messages [] h n = ([], h, n)"
| "alloc_messages (v # vs) h n =
     (case alloc_messages vs (h(n := v_signals v)) (Suc n) of
        (ms, h', n') \<Rightarrow> (msg_at v n # ms, h', n'))"

definition load_dbc_file ::
  "env \<Rightarrow> fs \<Rightarrow> editor \<Rightarrow> string \<Rightarrow> (error + message list) \<times> editor" where
  "load_dbc_file env files st path =
     (case files path of
        None \<Rightarrow> (Inl (FailedToLoad (NotFound path)), st)
      | Some content \<Rightarrow>
          if \<not> endswith (lower path) ''.dbc'' then (Inl (FailedToLoad BadExtension), st)
          else
            (let st1 = st\<lparr>file_path := Some path\<rparr>
             in case load_file env content of
                  None \<Rightarrow> (Inl (FailedToLoad ParseFailure), st1)
                | Some messages_data \<Rightarrow>
                    (case alloc_messages messages_data (store st) (next_ref st) of
                       (origs, h1, n1) \<Rightarrow>
                         (case alloc_messages (map (msg_val h1) origs) h1 n1 of
                            (mods, h2, n2) \<Rightarrow>
                              (Inr origs,
                               st1\<lparr>original_data := Some origs, modified_data := Some mods,
                                  store := h2, next_ref := n2\<rparr>)))))"

definition cleanup_backup_file :: "env \<Rightarrow> fs \<Rightarrow> string \<Rightarrow> fs" where
  "cleanup_backup_file env files path =
     (let backup_path = path @ ''.backup''
      in if files backup_path \<noteq> None \<and> \<not> remove_raises env
         then files(backup_path := None) else files)"

text \<open>The path that \<^verbatim>\<open>save_dbc_file\<close> writes to: its argument, or the path of the last load
  when the argument is \<^verbatim>\<open>None\<close>.\<close>

definition target_path :: "editor \<Rightarrow> string option \<Rightarrow> string option" where
  "target_path st arg = (case arg of None \<Rightarrow> file_path st | Some p \<Rightarrow> Some p)"

text \<open>\<^verbatim>\<open>save_dbc_file\<close>, step by step: the path; the backup of an existing target; the
  library objects; \<^verbatim>\<open>open(file_path, 'w')\<close>, which empties the target; the serializer,
  called inside the \<^verbatim>\<open>with\<close> block; the write; the new original snapshot
  \<^verbatim>\<open>[dict(m) for m in self._modified_data['messages']]\<close>, new dictionaries that hold the
  same lists of signals; the removal of the backup. A failure of \<^verbatim>\<open>shutil.copy2\<close> is taken
  to leave no backup behind.\<close>

definition save_dbc_file ::
  "env \<Rightarrow> fs \<Rightarrow> editor \<Rightarrow> string option \<Rightarrow> (error + unit) \<times> editor \<times> fs" where
  "save_dbc_file env files st arg =
     (case target_path st arg of
        None \<Rightarrow> (Inl (FailedToSave NoPath), st, files)
      | Some p \<Rightarrow>
          if p = [] then (Inl (FailedToSave NoPath), st, files)
          else if files p \<noteq> None \<and> copy2_raises env
          then (Inl (FailedToSave CopyFailure), st, files)
          else
            (let files1 = (case files p of None \<Rightarrow> files
                           | Some content \<Rightarrow> files(p @ ''.backup'' \<mapsto> content))
             in case modified_data st of
                  None \<Rightarrow> (Inl (FailedToSave BuildFailure), st, files1)
                | Some ms \<Rightarrow>
                    (let data = map (\<lambda>m. (msg_val (store st) m, m_frame_id m > 0x7FF)) ms
                     in if build_raises env data
                        then (Inl (FailedToSave BuildFailure), st, files1)
                        else if open_raises env
                        then (Inl (FailedToSave OpenFailure), st, files1)
                        else
                          (let files2 = files1(p \<mapsto> [])
                           in case as_dbc_string env data of
                                None \<Rightarrow> (Inl (FailedToSave SerializeFailure), st, files2)
                              | Some text \<Rightarrow>
                                  (case write_raises env of
                                     Some k \<Rightarrow>
                                       (Inl (FailedToSave WriteFailure), st,
                                        files2(p \<mapsto> take k text))
                                   | None \<Rightarrow>
                                       (Inr (), st\<lparr>original_data := Some ms\<rparr>,
                                        cleanup_backup_file env (files2(p \<mapsto> text)) p))))))"

definition cleanup_all_backups :: "env \<Rightarrow> fs \<Rightarrow> editor \<Rightarrow> fs" where
  "cleanup_all_backups env files st =
     (case file_path st of
        None \<Rightarrow> files
      | Some p \<Rightarrow> if p = [] then files else cleanup_backup_file env files p)"

section \<open>Auxiliary notions for the properties\<close>

text \<open>The number of signals of the message at a valid index of the working copy.\<close>

definition signal_count :: "editor \<Rightarrow> int \<Rightarrow> nat" where
  "signal_count st msg_idx =
     (case modified_data st of
        None \<Rightarrow> 0
      | Some ms \<Rightarrow>
          if 0 \<le> msg_idx \<and> msg_idx < int (length ms)
          then length (store st (m_signals (ms ! nat msg_idx))) else 0)"

text \<open>\<open>name\<close> is \<^verbatim>\<open>base_k\<close> for the lowest \<open>k \<ge> 1\<close> whose name is not among \<open>existing\<close>.\<close>

definition lowest_free_suffix :: "string \<Rightarrow> string list \<Rightarrow> string \<Rightarrow> bool" where
  "lowest_free_suffix base_name existing name =
     (\<exists>k\<ge>1. name = suffixed base_name k \<and> name \<notin> set existing
        \<and> (\<forall>j. 1 \<le> j \<and> j < k \<longrightarrow> suffixed base_name j \<in> set existing))"

text \<open>Every list of signals referenced from a snapshot has been allocated: its reference
  is below the allocation pointer, so a fresh list object is distinct from it.\<close>

definition refs_allocated :: "editor \<Rightarrow> bool" where
  "refs_allocated st =
     (\<forall>m \<in> set (messages_of (original_data st)) \<union> set (messages_of (modified_data st)).
        m_signals m < next_ref st)"

text \<open>The two snapshots as the comparison of dictionaries sees them: each message with the
  contents of its list of signals.\<close>

definition snapshot :: "editor \<Rightarrow> message_v list" where
  "snapshot st = map (msg_val (store st)) (messages_of (original_data st))"

definition working_v :: "editor \<Rightarrow> message_v list" where
  "working_v st = map (msg_val (store st)) (messages_of (modified_data st))"

text \<open>The states of an editor: a new editor, and what the operations make of it. A caller
  passes to \<^verbatim>\<open>add_message\<close> and \<^verbatim>\<open>update_message\<close> a dictionary whose list of signals is
  a new list (\<open>new_list\<close>) or one it took from the editor.\<close>

definition new_list :: "editor \<Rightarrow> signal list \<Rightarrow> ref \<times> editor" where
  "new_list st sigs =
     (next_ref st, st\<lparr>store := (store st)(next_ref st := sigs), next_ref := Suc (next_ref st)\<rparr>)"

inductive reachable :: "editor \<Rightarrow> bool" where
  r_init: "reachable init"
| r_create: "reachable st \<Longrightarrow> reachable (create_new_dbc st)"
| r_load: "reachable st \<Longrightarrow> reachable (snd (load_dbc_file env files st path))"
| r_save: "reachable st \<Longrightarrow> reachable (fst (snd (save_dbc_file env files st arg)))"
| r_reset: "reachable st \<Longrightarrow> reachable (reset_changes st)"
| r_new_list: "reachable st \<Longrightarrow> reachable (snd (new_list st sigs))"
| r_add_message:
    "reachable st \<Longrightarrow> m_signals message < next_ref st \<Longrightarrow> reachable (snd (add_message st message))"
| r_update_message:
    "reachable st \<Longrightarrow> m_signals message < next_ref st \<Longrightarrow>
     reachable (snd (update_message st idx message))"
| r_delete_message: "reachable st \<Longrightarrow> reachable (snd (delete_message st idx))"
| r_duplicate_message: "reachable st \<Longrightarrow> reachable (snd (duplicate_message st idx))"
| r_move_message_up: "reachable st \<Longrightarrow> reachable (snd (move_message_up st idx))"
| r_move_message_down: "reachable st \<Longrightarrow> reachable (snd (move_message_down st idx))"
| r_add_signal: "reachable st \<Longrightarrow> reachable (snd (add_signal st msg_idx signal))"
| r_update_signal: "reachable st \<Longrightarrow> reachable (snd (update_signal st msg_idx sig_idx signal))"
| r_delete_signal: "reachable st \<Longrightarrow> reachable (snd (delete_signal st msg_idx sig_idx))"
| r_duplicate_signal: "reachable st \<Longrightarrow> reachable (snd (duplicate_signal st msg_idx sig_idx))"
| r_move_signal_up: "reachable st \<Longrightarrow> reachable (snd (move_signal_up st msg_idx sig_idx))"
| r_move_signal_down: "reachable st \<Longrightarrow> reachable (snd (move_signal_down st msg_idx sig_idx))"

section \<open>Example data\<close>

text \<open>A message \<open>M\<close> (frame id \<open>0x100\<close>, eight bytes) with one unsigned signal \<open>S\<close> of eight
  bits, and a file system with a file that parses to it.\<close>

definition sig_S :: signal where
  "sig_S = \<lparr>s_name = ''S'', s_start_bit = 0, s_length = 8, s_is_signed = False,
     s_scale = 1, s_offset = 0, s_minimum = None, s_maximum = None, s_unit = [],
     s_receivers = [], s_comments = []\<rparr>"

definition parsed_M :: message_v where
  "parsed_M = \<lparr>v_name = ''M'', v_frame_id = 0x100, v_length = 8, v_senders = [],
     v_signals = [sig_S], v_comments = []\<rparr>"

definition parsed_A :: message_v where
  "parsed_A = \<lparr>v_name = ''A'', v_frame_id = 0x100, v_length = 8, v_senders = [],
     v_signals = [sig_S], v_comments = []\<rparr>"

definition parsed_B :: message_v where
  "parsed_B = \<lparr>v_name = ''B'', v_frame_id = 0x100, v_length = 8, v_senders = [],
     v_signals = [sig_S], v_comments = []\<rparr>"

definition demo_env :: env where
  "demo_env = \<lparr>
     load_file = (\<lambda>content. if content = ''M'' then Some [parsed_M]
        else if content = ''AB'' then Some [parsed_A, parsed_B] else None),
     build_raises = (\<lambda>data. False),
     as_dbc_string = (\<lambda>data. Some ''text''),
     copy2_raises = False, open_raises = False, write_raises = None,
     remove_raises = False\<rparr>"

definition demo_files :: fs where
  "demo_files = [''m.dbc'' \<mapsto> ''M'', ''ab.dbc'' \<mapsto> ''AB'', ''AB.DBC'' \<mapsto> ''AB'',
     ''notes.txt'' \<mapsto> ''M'']"

text \<open>A new message \<open>N\<close> with a new, empty list of signals, made for a new editor.\<close>

definition new_message_N :: message where
  "new_message_N = \<lparr>m_name = ''N'', m_frame_id = 0x200, m_length = 8, m_senders = [],
     m_signals = fst (new_list init []), m_comments = []\<rparr>"

definition init_with_list :: editor where
  "init_with_list = snd (new_list init [])"

text \<open>The editor after loading the example files into a new editor.\<close>

definition loaded_M :: editor where
  "loaded_M = snd (load_dbc_file demo_env demo_files init ''m.dbc'')"

definition loaded_AB :: editor where
  "loaded_AB = snd (load_dbc_file demo_env demo_files init ''ab.dbc'')"

definition sig_T :: signal where
  "sig_T = sig_S\<lparr>s_name := ''T'', s_start_bit := 8\<rparr>"

text \<open>The editor after loading \<^verbatim>\<open>m.dbc\<close> and saving it, and after loading
  \<^verbatim>\<open>ab.dbc\<close> and moving its first message down.\<close>

definition saved_M :: editor where
  "saved_M = fst (snd (save_dbc_file demo_env demo_files loaded_M None))"

definition swapped_AB :: editor where
  "swapped_AB = snd (move_message_down loaded_AB 0)"

text \<open>The message \<open>M\<close> of the working copy with a length of four bytes, and the message \<open>B\<close>
  of the working copy renamed, each with the list of signals it had.\<close>

definition msg_M_short :: message where
  "msg_M_short = (msg_at parsed_M 1)\<lparr>m_length := 4\<rparr>"

definition msg_B_renamed :: message where
  "msg_B_renamed = (msg_at parsed_B 3)\<lparr>m_name := ''N''\<rparr>"

text \<open>Environments in which one step of saving raises.\<close>

definition env_serializer_raises :: env where
  "env_serializer_raises = demo_env\<lparr>as_dbc_string := (\<lambda>data. None)\<rparr>"

definition env_write_raises :: env where
  "env_write_raises = demo_env\<lparr>write_raises := Some 2\<rparr>"

definition env_build_raises :: env where
  "env_build_raises = demo_env\<lparr>build_raises := (\<lambda>data. True)\<rparr>"

section \<open>Properties\<close>

subsection \<open>Evaluation of the examples\<close>

lemma endswith_m: "endswith (lower ''m.dbc'') ''.dbc''"
  by (simp add: endswith_def lower_def lower_char_def)

lemma endswith_ab: "endswith (lower ''ab.dbc'') ''.dbc''"
  by (simp add: endswith_def lower_def lower_char_def)

lemma loaded_M_eq:
  "loaded_M = \<lparr>file_path = Some ''m.dbc'',
      original_data = Some [msg_at parsed_M 0],
      modified_data = Some [msg_at parsed_M 1],
      store = (\<lambda>_. [])(0 := [sig_S], 1 := [sig_S]), next_ref = 2\<rparr>"
  by (simp add: loaded_M_def load_dbc_file_def demo_files_def demo_env_def endswith_m init_def
      msg_val_def msg_at_def parsed_M_def)

lemma loaded_AB_eq:
  "loaded_AB = \<lparr>file_path = Some ''ab.dbc'',
      original_data = Some [msg_at parsed_A 0, msg_at parsed_B 1],
      modified_data = Some [msg_at parsed_A 2, msg_at parsed_B 3],
      store = (\<lambda>_. [])(0 := [sig_S], 1 := [sig_S], 2 := [sig_S], 3 := [sig_S]), next_ref = 4\<rparr>"
  by (simp add: loaded_AB_def load_dbc_file_def demo_files_def demo_env_def endswith_ab init_def
      msg_val_def msg_at_def parsed_A_def parsed_B_def eval_nat_numeral)

lemma refs_allocated_loaded_M: "refs_allocated loaded_M"
  by (simp add: refs_allocated_def loaded_M_eq messages_of_def msg_at_def)

lemma unique_name_M: "unique_name ''M'' [''M''] = ''M_1''"
  by (simp add: unique_name_def unique_name_loop.simps suffixed_def str_nat.simps digit_char_def)

lemma unique_name_S: "unique_name ''S'' [''S''] = ''S_1''"
  by (simp add: unique_name_def unique_name_loop.simps suffixed_def str_nat.simps digit_char_def)

lemma dup_msg_M:
  "duplicate_message loaded_M 0 =
     (Inr 1, loaded_M\<lparr>modified_data := Some [msg_at parsed_M 1, (msg_at parsed_M 2)\<lparr>m_name := ''M_1''\<rparr>],
        store := (store loaded_M)(2 := [sig_S]), next_ref := 3\<rparr>)"
  by (simp add: duplicate_message_def loaded_M_eq msg_at_def parsed_M_def unique_name_M Let_def)

lemma dup_sig_M:
  "duplicate_signal loaded_M 0 0 =
     (Inr 1, loaded_M\<lparr>store := (store loaded_M)(1 := [sig_S, sig_S\<lparr>s_name := ''S_1''\<rparr>])\<rparr>)"
  by (simp add: duplicate_signal_def loaded_M_eq msg_at_def parsed_M_def unique_name_S Let_def
      sig_S_def)

lemma save_M:
  "save_dbc_file demo_env demo_files loaded_M None =
     (Inr (), loaded_M\<lparr>original_data := Some [msg_at parsed_M 1]\<rparr>,
      (demo_files(''m.dbc.backup'' \<mapsto> ''M'', ''m.dbc'' \<mapsto> ''text''))(''m.dbc.backup'' := None))"
  by (simp add: save_dbc_file_def target_path_def loaded_M_eq demo_env_def demo_files_def cleanup_backup_file_def)

lemma saved_M_eq:
  "saved_M = \<lparr>file_path = Some ''m.dbc'',
      original_data = Some [msg_at parsed_M 1],
      modified_data = Some [msg_at parsed_M 1],
      store = (\<lambda>_. [])(0 := [sig_S], 1 := [sig_S]), next_ref = 2\<rparr>"
  by (simp add: saved_M_def save_M) (simp add: loaded_M_eq)

lemma swapped_AB_eq:
  "move_message_down loaded_AB 0 =
     (Inr 1, loaded_AB\<lparr>modified_data := Some [msg_at parsed_B 3, msg_at parsed_A 2]\<rparr>)"
  by (simp add: move_message_down_def loaded_AB_eq swap_at_def)

lemma swapped_AB_facts:
  "snapshot swapped_AB = [parsed_A, parsed_B]
   \<and> working_v swapped_AB = [parsed_B, parsed_A]
   \<and> has_changes swapped_AB
   \<and> get_changes_summary swapped_AB = Changes [] [] [] [] [] []"
proof -
  have st: "swapped_AB = loaded_AB\<lparr>modified_data := Some [msg_at parsed_B 3, msg_at parsed_A 2]\<rparr>"
    by (simp add: swapped_AB_def swapped_AB_eq)
  have 1: "snapshot swapped_AB = [parsed_A, parsed_B]"
    by (simp add: st loaded_AB_eq snapshot_def messages_of_def msg_val_def msg_at_def
        parsed_A_def parsed_B_def)
  have 2: "working_v swapped_AB = [parsed_B, parsed_A]"
    by (simp add: st loaded_AB_eq working_v_def messages_of_def msg_val_def msg_at_def
        parsed_A_def parsed_B_def)
  have 3: "has_changes swapped_AB"
    by (simp add: st loaded_AB_eq has_changes_def msg_at_def parsed_A_def parsed_B_def)
  have 4: "get_changes_summary swapped_AB = Changes [] [] [] [] [] []"
    unfolding get_changes_summary_def using 3
    by (simp add: st loaded_AB_eq messages_of_def msg_at_def parsed_A_def parsed_B_def
        dict_of_def keys_def modified_pairs_def msg_val_def Let_def)
  from 1 2 3 4 show ?thesis by simp
qed

lemma endswith_upper: "endswith (lower ''AB.DBC'') ''.dbc''"
  by (simp add: endswith_def lower_def lower_char_def)

subsection \<open>Every list in use has been allocated\<close>

lemma refs_allocatedI:
  "(\<And>m. m \<in> set (messages_of (original_data st)) \<Longrightarrow> m_signals m < next_ref st) \<Longrightarrow>
   (\<And>m. m \<in> set (messages_of (modified_data st)) \<Longrightarrow> m_signals m < next_ref st) \<Longrightarrow>
   refs_allocated st"
  unfolding refs_allocated_def by blast

lemma refs_allocated_orig:
  "refs_allocated st \<Longrightarrow> original_data st = Some ms \<Longrightarrow> m \<in> set ms \<Longrightarrow> m_signals m < next_ref st"
  unfolding refs_allocated_def messages_of_def by auto

lemma refs_allocated_mod:
  "refs_allocated st \<Longrightarrow> modified_data st = Some ms \<Longrightarrow> m \<in> set ms \<Longrightarrow> m_signals m < next_ref st"
  unfolding refs_allocated_def messages_of_def by auto

lemma refs_allocated_cong:
  "original_data st' = original_data st \<Longrightarrow> modified_data st' = modified_data st \<Longrightarrow>
   next_ref st' = next_ref st \<Longrightarrow> refs_allocated st \<Longrightarrow> refs_allocated st'"
  unfolding refs_allocated_def by simp

lemma refs_allocated_working:
  assumes "refs_allocated st" and "modified_data st = Some ms"
    and "set ms' \<subseteq> set ms"
  shows "refs_allocated (st\<lparr>modified_data := Some ms'\<rparr>)"
  using assms unfolding refs_allocated_def messages_of_def by auto

lemma alloc_messages_refs:
  "alloc_messages vs h n = (ms, h', n') \<Longrightarrow>
   n \<le> n' \<and> (\<forall>m \<in> set ms. n \<le> m_signals m \<and> m_signals m < n')"
proof (induction vs arbitrary: h n ms h' n')
  case Nil
  then show ?case by simp
next
  case (Cons v vs)
  obtain ms1 h1 n1 where r: "alloc_messages vs (h(n := v_signals v)) (Suc n) = (ms1, h1, n1)"
    by (cases "alloc_messages vs (h(n := v_signals v)) (Suc n)") auto
  from Cons.IH [OF r] have ih: "Suc n \<le> n1" "\<forall>m \<in> set ms1. Suc n \<le> m_signals m \<and> m_signals m < n1"
    by simp_all
  from Cons.prems r have "n' = n1" and "ms = msg_at v n # ms1"
    by auto
  with ih show ?case by (auto simp: msg_at_def)
qed

lemma set_del_at: "set (del_at xs i) \<subseteq> set xs"
  unfolding del_at_def by (auto dest: in_set_takeD in_set_dropD)

lemma set_swap_at: "i < length xs \<Longrightarrow> j < length xs \<Longrightarrow> set (swap_at xs i j) \<subseteq> set xs"
  unfolding swap_at_def by (auto dest!: set_update_subset_insert [THEN subsetD])


lemma refs_allocated_store:
  "refs_allocated st \<Longrightarrow> refs_allocated (st\<lparr>store := h\<rparr>)"
  by (rule refs_allocated_cong) simp_all

lemma refs_allocated_init: "refs_allocated init"
  by (simp add: refs_allocated_def init_def messages_of_def)

lemma refs_allocated_create: "refs_allocated (create_new_dbc st)"
  by (simp add: refs_allocated_def create_new_dbc_def messages_of_def)

lemma refs_allocated_reset: "refs_allocated st \<Longrightarrow> refs_allocated (reset_changes st)"
  by (auto simp: refs_allocated_def reset_changes_def messages_of_def split: option.splits)

lemma refs_allocated_new_list: "refs_allocated st \<Longrightarrow> refs_allocated (snd (new_list st sigs))"
  by (auto simp: refs_allocated_def new_list_def less_Suc_eq)

lemma refs_allocated_load:
  assumes "refs_allocated st"
  shows "refs_allocated (snd (load_dbc_file env files st path))"
proof (cases "files path")
  case None
  with assms show ?thesis by (simp add: load_dbc_file_def)
next
  case (Some content)
  show ?thesis
  proof (cases "endswith (lower path) ''.dbc''")
    case False
    with Some assms show ?thesis by (simp add: load_dbc_file_def)
  next
    case ext: True
    show ?thesis
    proof (cases "load_file env content")
      case None
      have "refs_allocated (st\<lparr>file_path := Some path\<rparr>)"
        using assms by (rule refs_allocated_cong [rotated 3]) simp_all
      with Some ext None show ?thesis by (simp add: load_dbc_file_def)
    next
      case (Some messages_data)
      obtain origs h1 n1 where a1:
        "alloc_messages messages_data (store st) (next_ref st) = (origs, h1, n1)"
        by (cases "alloc_messages messages_data (store st) (next_ref st)") auto
      obtain mods h2 n2 where a2:
        "alloc_messages (map (msg_val h1) origs) h1 n1 = (mods, h2, n2)"
        by (cases "alloc_messages (map (msg_val h1) origs) h1 n1") auto
      from alloc_messages_refs [OF a1] alloc_messages_refs [OF a2]
      have "\<forall>m \<in> set origs \<union> set mods. m_signals m < n2" by fastforce
      then show ?thesis
        using \<open>files path = Some content\<close> ext Some a1 a2
        by (simp add: load_dbc_file_def refs_allocated_def messages_of_def)
    qed
  qed
qed

lemma refs_allocated_save:
  assumes "refs_allocated st"
  shows "refs_allocated (fst (snd (save_dbc_file env files st arg)))"
proof -
  have "fst (snd (save_dbc_file env files st arg)) = st
      \<or> (\<exists>ms. modified_data st = Some ms
            \<and> fst (snd (save_dbc_file env files st arg)) = st\<lparr>original_data := Some ms\<rparr>)"
    by (simp add: save_dbc_file_def target_path_def Let_def split: option.split)
  then show ?thesis
  proof
    assume "fst (snd (save_dbc_file env files st arg)) = st"
    with assms show ?thesis by simp
  next
    assume "\<exists>ms. modified_data st = Some ms
            \<and> fst (snd (save_dbc_file env files st arg)) = st\<lparr>original_data := Some ms\<rparr>"
    then obtain ms where ms: "modified_data st = Some ms"
      and eq: "fst (snd (save_dbc_file env files st arg)) = st\<lparr>original_data := Some ms\<rparr>"
      by blast
    have "refs_allocated (st\<lparr>original_data := Some ms\<rparr>)"
    proof (rule refs_allocatedI)
      fix m assume "m \<in> set (messages_of (original_data (st\<lparr>original_data := Some ms\<rparr>)))"
      then have "m \<in> set ms" by (simp add: messages_of_def)
      then show "m_signals m < next_ref (st\<lparr>original_data := Some ms\<rparr>)"
        using refs_allocated_mod [OF assms ms] by simp
    next
      fix m assume "m \<in> set (messages_of (modified_data (st\<lparr>original_data := Some ms\<rparr>)))"
      then have "m \<in> set ms" by (simp add: messages_of_def ms)
      then show "m_signals m < next_ref (st\<lparr>original_data := Some ms\<rparr>)"
        using refs_allocated_mod [OF assms ms] by simp
    qed
    with eq show ?thesis by simp
  qed
qed

lemma refs_allocated_add_message:
  "refs_allocated st \<Longrightarrow> m_signals message < next_ref st \<Longrightarrow>
   refs_allocated (snd (add_message st message))"
  by (auto simp: refs_allocated_def add_message_def messages_of_def split: option.splits)

lemma refs_allocated_update_message:
  assumes "refs_allocated st" and "m_signals message < next_ref st"
  shows "refs_allocated (snd (update_message st idx message))"
proof (cases "modified_data st")
  case None
  with assms show ?thesis by (simp add: update_message_def)
next
  case (Some ms)
  have "refs_allocated (st\<lparr>modified_data := Some (ms[i := message])\<rparr>)" for i
  proof (rule refs_allocatedI)
    fix m assume "m \<in> set (messages_of (original_data (st\<lparr>modified_data := Some (ms[i := message])\<rparr>)))"
    then show "m_signals m < next_ref (st\<lparr>modified_data := Some (ms[i := message])\<rparr>)"
      using assms(1) by (simp add: refs_allocated_def)
  next
    fix m assume "m \<in> set (messages_of (modified_data (st\<lparr>modified_data := Some (ms[i := message])\<rparr>)))"
    then have "m \<in> set (ms[i := message])" by (simp add: messages_of_def)
    then have "m = message \<or> m \<in> set ms"
      using set_update_subset_insert [of ms i message] by auto
    then show "m_signals m < next_ref (st\<lparr>modified_data := Some (ms[i := message])\<rparr>)"
      using assms Some by (auto dest: refs_allocated_mod)
  qed
  with Some assms(1) show ?thesis
    by (simp add: update_message_def split: option.split)
qed

lemma refs_allocated_delete_message:
  assumes "refs_allocated st"
  shows "refs_allocated (snd (delete_message st idx))"
proof (cases "modified_data st")
  case None
  with assms show ?thesis by (simp add: delete_message_def)
next
  case (Some ms)
  have "refs_allocated (st\<lparr>modified_data := Some (del_at ms i)\<rparr>)" for i
    by (rule refs_allocated_working [OF assms Some set_del_at])
  with Some assms show ?thesis
    by (simp add: delete_message_def split: option.split)
qed

lemma refs_allocated_move_message_up:
  assumes "refs_allocated st"
  shows "refs_allocated (snd (move_message_up st idx))"
proof (cases "modified_data st")
  case None
  with assms show ?thesis by (simp add: move_message_up_def)
next
  case (Some ms)
  have "0 < idx \<Longrightarrow> idx < int (length ms) \<Longrightarrow>
      refs_allocated (st\<lparr>modified_data := Some (swap_at ms (nat idx - 1) (nat idx))\<rparr>)"
    by (rule refs_allocated_working [OF assms Some set_swap_at]) simp_all
  with Some assms show ?thesis
    by (simp add: move_message_up_def)
qed

lemma refs_allocated_move_message_down:
  assumes "refs_allocated st"
  shows "refs_allocated (snd (move_message_down st idx))"
proof (cases "modified_data st")
  case None
  with assms show ?thesis by (simp add: move_message_down_def)
next
  case (Some ms)
  have "0 \<le> idx \<Longrightarrow> idx < int (length ms) - 1 \<Longrightarrow>
      refs_allocated (st\<lparr>modified_data := Some (swap_at ms (nat idx + 1) (nat idx))\<rparr>)"
    by (rule refs_allocated_working [OF assms Some set_swap_at]) simp_all
  with Some assms show ?thesis
    by (simp add: move_message_down_def)
qed

lemma refs_allocated_duplicate_message:
  assumes "refs_allocated st"
  shows "refs_allocated (snd (duplicate_message st idx))"
proof (cases "modified_data st")
  case None
  with assms show ?thesis by (simp add: duplicate_message_def)
next
  case (Some ms)
  from assms Some show ?thesis
    by (auto simp: duplicate_message_def Let_def refs_allocated_def messages_of_def less_Suc_eq
        split: option.splits)
qed

lemma refs_allocated_add_signal:
  "refs_allocated st \<Longrightarrow> refs_allocated (snd (add_signal st msg_idx signal))"
  by (auto simp: add_signal_def Let_def refs_allocated_store split: option.splits)

lemma refs_allocated_update_signal:
  "refs_allocated st \<Longrightarrow> refs_allocated (snd (update_signal st msg_idx sig_idx signal))"
  by (auto simp: update_signal_def Let_def refs_allocated_store split: option.splits)

lemma refs_allocated_delete_signal:
  "refs_allocated st \<Longrightarrow> refs_allocated (snd (delete_signal st msg_idx sig_idx))"
  by (auto simp: delete_signal_def Let_def refs_allocated_store split: option.splits)

lemma refs_allocated_duplicate_signal:
  "refs_allocated st \<Longrightarrow> refs_allocated (snd (duplicate_signal st msg_idx sig_idx))"
  by (auto simp: duplicate_signal_def Let_def refs_allocated_store split: option.splits)

lemma refs_allocated_move_signal_up:
  "refs_allocated st \<Longrightarrow> refs_allocated (snd (move_signal_up st msg_idx sig_idx))"
  by (auto simp: move_signal_up_def Let_def refs_allocated_store split: option.splits)

lemma refs_allocated_move_signal_down:
  "refs_allocated st \<Longrightarrow> refs_allocated (snd (move_signal_down st msg_idx sig_idx))"
  by (auto simp: move_signal_down_def Let_def refs_allocated_store split: option.splits)

lemma reachable_refs_allocated: "reachable st \<Longrightarrow> refs_allocated st"
proof (induction rule: reachable.induct)
  case r_init
  show ?case by (rule refs_allocated_init)
next
  case (r_create st)
  show ?case by (rule refs_allocated_create)
next
  case (r_load st env files path)
  then show ?case by (simp add: refs_allocated_load)
next
  case (r_save st env files arg)
  then show ?case by (simp add: refs_allocated_save)
next
  case (r_reset st)
  then show ?case by (simp add: refs_allocated_reset)
next
  case (r_new_list st sigs)
  then show ?case by (simp add: refs_allocated_new_list)
next
  case (r_add_message st message)
  then show ?case by (simp add: refs_allocated_add_message)
next
  case (r_update_message st message idx)
  then show ?case by (simp add: refs_allocated_update_message)
next
  case (r_delete_message st idx)
  then show ?case by (simp add: refs_allocated_delete_message)
next
  case (r_duplicate_message st idx)
  then show ?case by (simp add: refs_allocated_duplicate_message)
next
  case (r_move_message_up st idx)
  then show ?case by (simp add: refs_allocated_move_message_up)
next
  case (r_move_message_down st idx)
  then show ?case by (simp add: refs_allocated_move_message_down)
next
  case (r_add_signal st msg_idx signal)
  then show ?case by (simp add: refs_allocated_add_signal)
next
  case (r_update_signal st msg_idx sig_idx signal)
  then show ?case by (simp add: refs_allocated_update_signal)
next
  case (r_delete_signal st msg_idx sig_idx)
  then show ?case by (simp add: refs_allocated_delete_signal)
next
  case (r_duplicate_signal st msg_idx sig_idx)
  then show ?case by (simp add: refs_allocated_duplicate_signal)
next
  case (r_move_signal_up st msg_idx sig_idx)
  then show ?case by (simp add: refs_allocated_move_signal_up)
next
  case (r_move_signal_down st msg_idx sig_idx)
  then show ?case by (simp add: refs_allocated_move_signal_down)
qed

text \<open>The example states are states of an editor, so every list they use is allocated.\<close>

lemma reachable_loaded_M: "reachable loaded_M"
  unfolding loaded_M_def by (intro r_load r_init)

lemma reachable_loaded_AB: "reachable loaded_AB"
  unfolding loaded_AB_def by (intro r_load r_init)

lemma reachable_saved_M: "reachable saved_M"
  unfolding saved_M_def by (intro r_save reachable_loaded_M)

lemma reachable_swapped_AB: "reachable swapped_AB"
  unfolding swapped_AB_def by (intro r_move_message_down reachable_loaded_AB)

subsection \<open>The renaming loop\<close>

lemma unique_name_loop_spec:
  "c = suffixed b k \<Longrightarrow> s = Suc k \<Longrightarrow>
   \<exists>j\<ge>k. unique_name_loop b e c s = suffixed b j \<and> suffixed b j \<notin> set e
      \<and> (\<forall>i. k \<le> i \<and> i < j \<longrightarrow> suffixed b i \<in> set e)"
proof (induction b e c s arbitrary: k rule: unique_name_loop.induct)
  case (1 b e c s)
  show ?case
  proof (cases "c \<in> set e")
    case False
    then have "unique_name_loop b e c s = c" by (subst unique_name_loop.simps) simp
    with False "1.prems" show ?thesis by (intro exI [of _ k]) auto
  next
    case True
    then have step: "unique_name_loop b e c s = unique_name_loop b e (suffixed b s) (Suc s)"
      by (subst unique_name_loop.simps) simp
    from "1.IH" [OF True refl refl] obtain j where j: "s \<le> j"
      "unique_name_loop b e (suffixed b s) (Suc s) = suffixed b j"
      "suffixed b j \<notin> set e" "\<forall>i. s \<le> i \<and> i < j \<longrightarrow> suffixed b i \<in> set e"
      by blast
    have "\<forall>i. k \<le> i \<and> i < j \<longrightarrow> suffixed b i \<in> set e"
    proof (intro allI impI)
      fix i assume i: "k \<le> i \<and> i < j"
      show "suffixed b i \<in> set e"
      proof (cases "i = k")
        case True
        with \<open>c \<in> set e\<close> "1.prems" show ?thesis by simp
      next
        case False
        with i "1.prems" have "s \<le> i \<and> i < j" by simp
        with j(4) show ?thesis by blast
      qed
    qed
    moreover have "k \<le> j" using j(1) "1.prems" by simp
    ultimately show ?thesis using step j(2,3) by (intro exI [of _ j]) simp
  qed
qed

lemma unique_name_lowest: "lowest_free_suffix b e (unique_name b e)"
proof -
  from unique_name_loop_spec [of "suffixed b 1" b 1 2 e]
  obtain j where "1 \<le> j" "unique_name b e = suffixed b j" "suffixed b j \<notin> set e"
    "\<forall>i. 1 \<le> i \<and> i < j \<longrightarrow> suffixed b i \<in> set e"
    unfolding unique_name_def by auto
  then show ?thesis unfolding lowest_free_suffix_def by auto
qed

subsection \<open>A failed save\<close>

text \<open>C1, as stated, fails: the target is opened for writing, and so emptied, before the
  serializer runs. When the serializer raises, the file that was loaded is left empty; when
  the write raises part-way, it is left with the part written.\<close>

theorem serializer_failure_counterexample:
  "file_path loaded_M = Some ''m.dbc''
   \<and> demo_files ''m.dbc'' = Some ''M''
   \<and> fst (save_dbc_file env_serializer_raises demo_files loaded_M None)
       = Inl (FailedToSave SerializeFailure)
   \<and> snd (snd (save_dbc_file env_serializer_raises demo_files loaded_M None)) ''m.dbc''
       = Some []
   \<and> fst (save_dbc_file env_write_raises demo_files loaded_M None)
       = Inl (FailedToSave WriteFailure)
   \<and> snd (snd (save_dbc_file env_write_raises demo_files loaded_M None)) ''m.dbc''
       = Some ''te''"
  by (simp add: save_dbc_file_def target_path_def loaded_M_eq demo_env_def demo_files_def
      env_serializer_raises_def env_write_raises_def)

text \<open>C1, amended. When saving to an existing file fails after the backup has been made
  (while the library objects are built, when the target is opened, in the serializer or
  during the write), the backup file \<^verbatim>\<open>path + '.backup'\<close> exists afterwards and holds the
  contents the target had before the save, and the editor state is as it was. When the
  failure comes before the target is opened for writing, the target is untouched as well:
  the only change on disk is the backup.\<close>

theorem failed_save_keeps_backup:
  assumes "target_path st arg = Some p" and "files p = Some old"
    and "save_dbc_file env files st arg = (Inl (FailedToSave cause), st', files')"
    and "cause \<noteq> NoPath" and "cause \<noteq> CopyFailure"
  shows "files' (p @ ''.backup'') = Some old
    \<and> st' = st
    \<and> (cause = BuildFailure \<or> cause = OpenFailure \<longrightarrow> files' = files(p @ ''.backup'' \<mapsto> old))"
  using assms
  by (auto simp: save_dbc_file_def target_path_def Let_def
      split: option.splits if_splits)

theorem failed_save_keeps_backup_witness:
  "target_path loaded_M None = Some ''m.dbc''
   \<and> demo_files ''m.dbc'' = Some ''M''
   \<and> fst (save_dbc_file env_build_raises demo_files loaded_M None)
       = Inl (FailedToSave BuildFailure)
   \<and> snd (snd (save_dbc_file env_build_raises demo_files loaded_M None))
       = demo_files(''m.dbc.backup'' \<mapsto> ''M'')
   \<and> fst (save_dbc_file env_serializer_raises demo_files loaded_M None)
       = Inl (FailedToSave SerializeFailure)
   \<and> snd (snd (save_dbc_file env_serializer_raises demo_files loaded_M None)) ''m.dbc.backup''
       = Some ''M''"
proof -
  have tp: "target_path loaded_M None = Some ''m.dbc''"
    by (simp add: target_path_def loaded_M_eq)
  have f: "demo_files ''m.dbc'' = Some ''M''" by (simp add: demo_files_def)
  have fb: "fst (save_dbc_file env_build_raises demo_files loaded_M None)
      = Inl (FailedToSave BuildFailure)"
    by (simp add: save_dbc_file_def target_path_def loaded_M_eq demo_env_def demo_files_def env_build_raises_def)
  have fs: "fst (save_dbc_file env_serializer_raises demo_files loaded_M None)
      = Inl (FailedToSave SerializeFailure)"
    by (simp add: save_dbc_file_def target_path_def loaded_M_eq demo_env_def demo_files_def
        env_serializer_raises_def)
  have b: "save_dbc_file env_build_raises demo_files loaded_M None
      = (Inl (FailedToSave BuildFailure),
         fst (snd (save_dbc_file env_build_raises demo_files loaded_M None)),
         snd (snd (save_dbc_file env_build_raises demo_files loaded_M None)))"
    by (simp only: fb [symmetric] prod.collapse)
  have s: "save_dbc_file env_serializer_raises demo_files loaded_M None
      = (Inl (FailedToSave SerializeFailure),
         fst (snd (save_dbc_file env_serializer_raises demo_files loaded_M None)),
         snd (snd (save_dbc_file env_serializer_raises demo_files loaded_M None)))"
    by (simp only: fs [symmetric] prod.collapse)
  from failed_save_keeps_backup [OF tp f b]
  have 1: "snd (snd (save_dbc_file env_build_raises demo_files loaded_M None))
       = demo_files(''m.dbc.backup'' \<mapsto> ''M'')" by simp
  from failed_save_keeps_backup [OF tp f s]
  have 2: "snd (snd (save_dbc_file env_serializer_raises demo_files loaded_M None)) ''m.dbc.backup''
       = Some ''M''" by simp
  from tp f fb fs 1 2 show ?thesis by blast
qed

subsection \<open>Independence of the two snapshots\<close>

text \<open>After loading, the working copy has its own lists of signals: adding a signal leaves
  the original snapshot as it was and is reported as a change.\<close>

lemma loaded_copy_is_independent:
  "snapshot loaded_M = [parsed_M]
   \<and> snapshot (snd (add_signal loaded_M 0 sig_T)) = [parsed_M]
   \<and> has_changes (snd (add_signal loaded_M 0 sig_T)) = True"
  by (simp add: loaded_M_eq snapshot_def messages_of_def msg_val_def msg_at_def parsed_M_def
      add_signal_def py_index_def has_changes_def Let_def)

text \<open>After a successful save, and after a reset, the messages of the two snapshots hold
  the same list objects, position by position.\<close>

lemma save_keeps_list_references:
  assumes "save_dbc_file env files st arg = (Inr (), st', files')"
  shows "map m_signals (messages_of (original_data st'))
       = map m_signals (messages_of (modified_data st'))"
  using assms
  by (auto simp: save_dbc_file_def target_path_def Let_def split: option.splits if_splits)

lemma reset_keeps_list_references:
  assumes "original_data st \<noteq> None"
  shows "map m_signals (messages_of (modified_data (reset_changes st)))
       = map m_signals (messages_of (original_data (reset_changes st)))"
  using assms by (auto simp: reset_changes_def)

text \<open>C2 does not hold of the code. \<^verbatim>\<open>save_dbc_file\<close> copies each message dictionary with
  \<^verbatim>\<open>dict(m)\<close>, which keeps the reference to the list of signals, so after a successful save
  the original snapshot and the working copy share every list of signals: adding a signal
  to the working copy changes the original snapshot too, and \<^verbatim>\<open>has_changes\<close> reports
  nothing. \<^verbatim>\<open>reset_changes\<close> copies the same way, with the same effect.\<close>

theorem save_shares_signal_lists:
  "fst (save_dbc_file demo_env demo_files loaded_M None) = Inr ()
   \<and> snapshot saved_M = [parsed_M]
   \<and> fst (add_signal saved_M 0 sig_T) = Inr ()
   \<and> snapshot (snd (add_signal saved_M 0 sig_T)) = [parsed_M\<lparr>v_signals := [sig_S, sig_T]\<rparr>]
   \<and> has_changes (snd (add_signal saved_M 0 sig_T)) = False
   \<and> snapshot (reset_changes loaded_M) = [parsed_M]
   \<and> snapshot (snd (add_signal (reset_changes loaded_M) 0 sig_T))
       = [parsed_M\<lparr>v_signals := [sig_S, sig_T]\<rparr>]"
proof -
  have saved: "fst (save_dbc_file demo_env demo_files loaded_M None) = Inr ()"
    by (simp add: save_M)
  have after_save: "snapshot saved_M = [parsed_M]
     \<and> fst (add_signal saved_M 0 sig_T) = Inr ()
     \<and> snapshot (snd (add_signal saved_M 0 sig_T)) = [parsed_M\<lparr>v_signals := [sig_S, sig_T]\<rparr>]
     \<and> has_changes (snd (add_signal saved_M 0 sig_T)) = False"
    by (simp add: saved_M_eq snapshot_def messages_of_def msg_val_def msg_at_def parsed_M_def
        add_signal_def py_index_def has_changes_def Let_def)
  have after_reset: "snapshot (reset_changes loaded_M) = [parsed_M]
     \<and> snapshot (snd (add_signal (reset_changes loaded_M) 0 sig_T))
         = [parsed_M\<lparr>v_signals := [sig_S, sig_T]\<rparr>]"
    by (simp add: loaded_M_eq reset_changes_def snapshot_def messages_of_def msg_val_def
        msg_at_def parsed_M_def add_signal_def py_index_def Let_def)
  from saved after_save after_reset show ?thesis by simp
qed

subsection \<open>Changes after a save\<close>

text \<open>Right after a successful save the two snapshots hold the same messages and the same
  lists of signals, and \<^verbatim>\<open>has_changes\<close> returns false.\<close>

lemma messages_differ_same: "messages_differ h ms ms = False"
proof (induction ms)
  case Nil
  show ?case by simp
next
  case (Cons m ms)
  have "\<not> list_ex (\<lambda>(orig_sig, mod_sig). orig_sig \<noteq> mod_sig) (zip xs xs)" for xs :: "signal list"
    by (induction xs) simp_all
  with Cons show ?case by simp
qed

lemma has_changes_after_save:
  assumes "save_dbc_file env files st arg = (Inr (), st', files')"
  shows "has_changes st' = False"
  using assms
  by (auto simp: save_dbc_file_def target_path_def has_changes_def messages_differ_same Let_def
      split: option.splits if_splits)

text \<open>C3 does not hold of the code. After a successful save, \<^verbatim>\<open>update_signal\<close> replaces a
  signal in a list that the original snapshot shares, so the working copy changes and
  \<^verbatim>\<open>has_changes\<close> still returns false. \<^verbatim>\<open>update_message\<close> with a message that differs
  in its length only is not reported either: of a message, \<^verbatim>\<open>has_changes\<close> compares the
  name, the frame id and the signals.\<close>

theorem update_signal_after_save_undetected:
  "has_changes saved_M = False
   \<and> sig_T \<noteq> sig_S
   \<and> working_v saved_M = [parsed_M]
   \<and> fst (update_signal saved_M 0 0 sig_T) = Inr ()
   \<and> working_v (snd (update_signal saved_M 0 0 sig_T)) = [parsed_M\<lparr>v_signals := [sig_T]\<rparr>]
   \<and> has_changes (snd (update_signal saved_M 0 0 sig_T)) = False
   \<and> fst (update_message saved_M 0 msg_M_short) = Inr ()
   \<and> working_v (snd (update_message saved_M 0 msg_M_short)) = [parsed_M\<lparr>v_length := 4\<rparr>]
   \<and> has_changes (snd (update_message saved_M 0 msg_M_short)) = False"
  by (simp add: saved_M_eq working_v_def messages_of_def msg_val_def msg_at_def parsed_M_def
      update_signal_def update_message_def py_index_def has_changes_def Let_def sig_T_def sig_S_def
      msg_M_short_def)

subsection \<open>The swap of two messages\<close>

text \<open>C4. There is an editor state, reached by loading a file with two messages and
  moving the first one down, whose working list is the original list with its two messages
  swapped, the two messages differing in nothing but the name, in which \<^verbatim>\<open>has_changes\<close>
  returns true and \<^verbatim>\<open>get_changes_summary\<close> reports no added, deleted or modified message
  and no added, deleted or modified signal.\<close>

theorem swap_discrepancy:
  "\<exists>st a b. reachable st
      \<and> snapshot st = [a, b] \<and> working_v st = [b, a]
      \<and> v_name a \<noteq> v_name b \<and> b = a\<lparr>v_name := v_name b\<rparr>
      \<and> has_changes st
      \<and> get_changes_summary st = Changes [] [] [] [] [] []"
proof (intro exI conjI)
  show "reachable swapped_AB" by (rule reachable_swapped_AB)
  show "snapshot swapped_AB = [parsed_A, parsed_B]" using swapped_AB_facts by simp
  show "working_v swapped_AB = [parsed_B, parsed_A]" using swapped_AB_facts by simp
  show "v_name parsed_A \<noteq> v_name parsed_B" by (simp add: parsed_A_def parsed_B_def)
  show "parsed_B = parsed_A\<lparr>v_name := v_name parsed_B\<rparr>" by (simp add: parsed_A_def parsed_B_def)
  show "has_changes swapped_AB" using swapped_AB_facts by simp
  show "get_changes_summary swapped_AB = Changes [] [] [] [] [] []"
    using swapped_AB_facts by simp
qed

subsection \<open>Names of duplicates\<close>

text \<open>C5. For every valid index, the copy made by \<^verbatim>\<open>duplicate_message\<close> (the last message
  of the working list afterwards) is named \<^verbatim>\<open>base_k\<close> where \<open>base\<close> is the name of the
  duplicated message and \<open>k \<ge> 1\<close> is the lowest suffix for which that name is not the name
  of a message of the working list at the time of the call; in particular it collides with
  no sibling. The same holds for \<^verbatim>\<open>duplicate_signal\<close> and the signals of the addressed
  message.\<close>

theorem duplicate_names_unique:
  assumes "modified_data st = Some ms" and "0 \<le> msg_idx" and "msg_idx < int (length ms)"
  shows "lowest_free_suffix (m_name (ms ! nat msg_idx)) (map m_name ms)
           (m_name (last (working (snd (duplicate_message st msg_idx)))))
    \<and> (0 \<le> sig_idx \<and> sig_idx < int (signal_count st msg_idx) \<longrightarrow>
         (let signals = store st (m_signals (ms ! nat msg_idx));
              signals' = store (snd (duplicate_signal st msg_idx sig_idx))
                           (m_signals (ms ! nat msg_idx))
          in lowest_free_suffix (s_name (signals ! nat sig_idx)) (map s_name signals)
               (s_name (last signals'))))"
  using assms
  by (simp add: duplicate_message_def duplicate_signal_def signal_count_def working_def Let_def
      unique_name_lowest)

theorem duplicate_names_unique_witness:
  "modified_data loaded_M = Some [msg_at parsed_M 1]
   \<and> lowest_free_suffix ''M'' [''M''] ''M_1''
   \<and> m_name (last (working (snd (duplicate_message loaded_M 0)))) = ''M_1''
   \<and> lowest_free_suffix ''S'' [''S''] ''S_1''
   \<and> s_name (last (store (snd (duplicate_signal loaded_M 0 0)) 1)) = ''S_1''"
proof -
  have md: "modified_data loaded_M = Some [msg_at parsed_M 1]" by (simp add: loaded_M_eq)
  have cnt: "signal_count loaded_M 0 = 1"
    by (simp add: signal_count_def loaded_M_eq msg_at_def)
  have nm: "m_name (last (working (snd (duplicate_message loaded_M 0)))) = ''M_1''"
    by (simp add: dup_msg_M working_def)
  have ns: "s_name (last (store (snd (duplicate_signal loaded_M 0 0)) 1)) = ''S_1''"
    by (simp add: dup_sig_M)
  have st: "store loaded_M (Suc 0) = [sig_S]" by (simp add: loaded_M_eq)
  have ns': "s_name (last (store (snd (duplicate_signal loaded_M 0 0)) (Suc 0))) = ''S_1''"
    using ns by simp
  from duplicate_names_unique [OF md, of 0 0]
  have "lowest_free_suffix ''M'' [''M''] ''M_1'' \<and> lowest_free_suffix ''S'' [''S''] ''S_1''"
    by (simp add: cnt nm ns' st msg_at_def parsed_M_def sig_S_def Let_def)
  with md nm ns show ?thesis by simp
qed

subsection \<open>Duplicates are appended\<close>

text \<open>C6. For every valid index, \<^verbatim>\<open>duplicate_message\<close> appends the copy at the end of the
  working list and returns the index of that last position; the messages that were there
  keep their positions and their values; the copy has the fields of the duplicated message
  except for the name. \<^verbatim>\<open>duplicate_signal\<close> does the same in the list of signals of the
  addressed message and leaves the list of messages as it was.\<close>

theorem duplicate_appends_copy:
  assumes "modified_data st = Some ms" and "0 \<le> msg_idx" and "msg_idx < int (length ms)"
    and "refs_allocated st"
  shows "(\<exists>st' new.
            duplicate_message st msg_idx = (Inr (int (length (working st')) - 1), st')
          \<and> working st' = ms @ [new]
          \<and> map (msg_val (store st')) ms = map (msg_val (store st)) ms
          \<and> msg_val (store st') new
              = (msg_val (store st) (ms ! nat msg_idx))\<lparr>v_name := m_name new\<rparr>)
    \<and> (0 \<le> sig_idx \<and> sig_idx < int (signal_count st msg_idx) \<longrightarrow>
         (\<exists>st' new.
            duplicate_signal st msg_idx sig_idx
              = (Inr (int (signal_count st' msg_idx) - 1), st')
          \<and> modified_data st' = Some ms
          \<and> (let r = m_signals (ms ! nat msg_idx)
              in store st' r = store st r @ [new]
               \<and> new = (store st r ! nat sig_idx)\<lparr>s_name := s_name new\<rparr>)))"
proof
  let ?r = "next_ref st"
  have fresh: "\<forall>m \<in> set ms. m_signals m \<noteq> ?r"
  proof
    fix m assume "m \<in> set ms"
    then have "m \<in> set (messages_of (modified_data st))"
      using assms(1) by (simp add: messages_of_def)
    with assms(4) have "m_signals m < ?r" unfolding refs_allocated_def by blast
    then show "m_signals m \<noteq> ?r" by simp
  qed
  have "map (msg_val ((store st)(?r := store st (m_signals (ms ! nat msg_idx))))) ms
        = map (msg_val (store st)) ms"
    using fresh by (simp add: msg_val_def)
  then show "\<exists>st' new.
            duplicate_message st msg_idx = (Inr (int (length (working st')) - 1), st')
          \<and> working st' = ms @ [new]
          \<and> map (msg_val (store st')) ms = map (msg_val (store st)) ms
          \<and> msg_val (store st') new
              = (msg_val (store st) (ms ! nat msg_idx))\<lparr>v_name := m_name new\<rparr>"
    using assms(1-3)
    by (simp add: duplicate_message_def working_def Let_def msg_val_def)
next
  show "0 \<le> sig_idx \<and> sig_idx < int (signal_count st msg_idx) \<longrightarrow>
         (\<exists>st' new.
            duplicate_signal st msg_idx sig_idx
              = (Inr (int (signal_count st' msg_idx) - 1), st')
          \<and> modified_data st' = Some ms
          \<and> (let r = m_signals (ms ! nat msg_idx)
              in store st' r = store st r @ [new]
               \<and> new = (store st r ! nat sig_idx)\<lparr>s_name := s_name new\<rparr>))"
    using assms(1-3)
    by (simp add: duplicate_signal_def signal_count_def Let_def)
qed

theorem duplicate_appends_copy_witness:
  "modified_data loaded_M = Some [msg_at parsed_M 1]
   \<and> refs_allocated loaded_M
   \<and> (\<exists>st' new.
         duplicate_message loaded_M 0 = (Inr 1, st')
       \<and> working st' = [msg_at parsed_M 1, new]
       \<and> msg_val (store st') new = parsed_M\<lparr>v_name := ''M_1''\<rparr>)
   \<and> (\<exists>st' new.
         duplicate_signal loaded_M 0 0 = (Inr 1, st')
       \<and> store st' 1 = [sig_S, new]
       \<and> new = sig_S\<lparr>s_name := ''S_1''\<rparr>)"
proof -
  have md: "modified_data loaded_M = Some [msg_at parsed_M 1]" by (simp add: loaded_M_eq)
  have cnt: "signal_count loaded_M 0 = 1"
    by (simp add: signal_count_def loaded_M_eq msg_at_def)
  have st1: "store loaded_M (Suc 0) = [sig_S]" by (simp add: loaded_M_eq)
  have orig: "msg_val (store loaded_M) (msg_at parsed_M 1) = parsed_M"
    by (simp add: msg_val_def msg_at_def st1 parsed_M_def)
  note inst = duplicate_appends_copy [OF md _ _ refs_allocated_loaded_M, of 0 0]
  from inst obtain st' new where m:
    "duplicate_message loaded_M 0 = (Inr (int (length (working st')) - 1), st')"
    "working st' = [msg_at parsed_M 1] @ [new]"
    "msg_val (store st') new
       = (msg_val (store loaded_M) ([msg_at parsed_M 1] ! nat 0))\<lparr>v_name := m_name new\<rparr>"
    by auto
  have "new = last (working (snd (duplicate_message loaded_M 0)))" using m(1,2) by simp
  then have "m_name new = ''M_1''" by (simp add: dup_msg_M working_def)
  with m orig have A: "\<exists>st' new.
         duplicate_message loaded_M 0 = (Inr 1, st')
       \<and> working st' = [msg_at parsed_M 1, new]
       \<and> msg_val (store st') new = parsed_M\<lparr>v_name := ''M_1''\<rparr>"
    by (intro exI [of _ st'] exI [of _ new]) simp
  from inst cnt obtain st'' new' where s:
    "duplicate_signal loaded_M 0 0 = (Inr (int (signal_count st'' 0) - 1), st'')"
    "store st'' (m_signals ([msg_at parsed_M 1] ! nat 0))
       = store loaded_M (m_signals ([msg_at parsed_M 1] ! nat 0)) @ [new']"
    "new' = (store loaded_M (m_signals ([msg_at parsed_M 1] ! nat 0)) ! nat 0)
              \<lparr>s_name := s_name new'\<rparr>"
    "modified_data st'' = Some [msg_at parsed_M 1]"
    by (auto simp: Let_def)
  have s2: "store st'' (Suc 0) = [sig_S, new']" using s(2) by (simp add: msg_at_def st1)
  have "signal_count st'' 0 = 2" using s(4) s2 by (simp add: signal_count_def msg_at_def)
  moreover have "new' = last (store (snd (duplicate_signal loaded_M 0 0)) (Suc 0))"
    using s(1) s2 by simp
  then have "s_name new' = ''S_1''" by (simp add: dup_sig_M)
  moreover have "new' = sig_S\<lparr>s_name := s_name new'\<rparr>" using s(3) by (simp add: msg_at_def st1)
  ultimately have B: "\<exists>st' new.
         duplicate_signal loaded_M 0 0 = (Inr 1, st')
       \<and> store st' 1 = [sig_S, new]
       \<and> new = sig_S\<lparr>s_name := ''S_1''\<rparr>"
    using s(1) s2 by (intro exI [of _ st''] exI [of _ new']) simp
  from md refs_allocated_loaded_M A B show ?thesis by blast
qed

subsection \<open>Negative indices\<close>

text \<open>An index at or beyond the end of the list is refused by every operation, with the
  state as it was.\<close>

lemma index_beyond_end_fails:
  assumes "int (length (working st)) \<le> idx"
  shows "update_message st idx message = (Inl InvalidMessageIndex, st)"
    and "delete_message st idx = (Inl InvalidMessageIndex, st)"
    and "add_signal st idx signal = (Inl InvalidMessageIndex, st)"
    and "update_signal st idx sig_idx signal = (Inl InvalidMessageIndex, st)"
    and "delete_signal st idx sig_idx = (Inl InvalidMessageIndex, st)"
  using assms
  by (cases "modified_data st";
      simp add: update_message_def delete_message_def add_signal_def update_signal_def
        delete_signal_def working_def)+

lemma signal_index_beyond_end_fails:
  assumes "0 \<le> msg_idx" and "msg_idx < int (length (working st))"
    and "int (signal_count st msg_idx) \<le> sig_idx"
  shows "update_signal st msg_idx sig_idx signal = (Inl InvalidSignalIndex, st)"
    and "delete_signal st msg_idx sig_idx = (Inl InvalidSignalIndex, st)"
  using assms
  by (cases "modified_data st";
      simp add: update_signal_def delete_signal_def working_def signal_count_def py_index_def
        Let_def)+

text \<open>Index \<open>-1\<close> addresses the last message of every non-empty working list.\<close>

lemma update_message_last:
  assumes "modified_data st = Some ms" and "ms \<noteq> []"
  shows "update_message st (- 1) message
       = (Inr (), st\<lparr>modified_data := Some (ms[length ms - 1 := message])\<rparr>)"
proof -
  have "py_index (length ms) (- 1) = Some (length ms - 1)"
    using assms(2) by (cases ms) (simp_all add: py_index_def)
  with assms show ?thesis by (simp add: update_message_def)
qed

lemma delete_message_last:
  assumes "modified_data st = Some ms" and "ms \<noteq> []"
  shows "delete_message st (- 1) = (Inr (), st\<lparr>modified_data := Some (butlast ms)\<rparr>)"
proof -
  have i: "py_index (length ms) (- 1) = Some (length ms - 1)"
    using assms(2) by (cases ms) (simp_all add: py_index_def)
  have "del_at ms (length ms - 1) = butlast ms"
    using assms(2) by (simp add: del_at_def butlast_conv_take)
  with i assms show ?thesis by (simp add: delete_message_def)
qed

text \<open>C7 does not hold of the code for negative indices. \<^verbatim>\<open>update_message\<close>,
  \<^verbatim>\<open>delete_message\<close>, \<^verbatim>\<open>update_signal\<close> and \<^verbatim>\<open>delete_signal\<close> only test
  \<^verbatim>\<open>idx >= len(...)\<close>; index \<open>-1\<close> passes the test and Python's list indexing takes it for
  the last element, which is replaced or deleted. Below \<open>-len\<close> the list indexing raises
  \<^verbatim>\<open>IndexError\<close>, not the editor's error.\<close>

theorem update_message_negative_index:
  "working loaded_AB = [msg_at parsed_A 2, msg_at parsed_B 3]
   \<and> update_message loaded_AB (- 1) msg_B_renamed
     = (Inr (), loaded_AB\<lparr>modified_data := Some [msg_at parsed_A 2, msg_B_renamed]\<rparr>)
   \<and> delete_message loaded_AB (- 1)
     = (Inr (), loaded_AB\<lparr>modified_data := Some [msg_at parsed_A 2]\<rparr>)
   \<and> update_signal loaded_AB (- 1) (- 1) sig_T
     = (Inr (), loaded_AB\<lparr>store := (store loaded_AB)(3 := [sig_T])\<rparr>)
   \<and> delete_signal loaded_AB (- 1) (- 1)
     = (Inr (), loaded_AB\<lparr>store := (store loaded_AB)(3 := [])\<rparr>)
   \<and> update_message loaded_AB (- 3) msg_B_renamed = (Inl IndexError, loaded_AB)"
  by (simp add: update_message_def delete_message_def update_signal_def delete_signal_def
      loaded_AB_eq py_index_def del_at_def working_def msg_at_def Let_def)

subsection \<open>Moves at the boundary\<close>

text \<open>C8. For every editor state, \<^verbatim>\<open>move_message_up\<close> at index 0 and
  \<^verbatim>\<open>move_message_down\<close> at the last index of the working list fail and return the state
  as it was; \<^verbatim>\<open>move_signal_up\<close> at signal index 0 and \<^verbatim>\<open>move_signal_down\<close> at the last
  signal index of the addressed message fail as well, whatever the message index, and
  leave the state (working list and store of signal lists) as it was.\<close>

theorem move_at_boundary_fails:
  "move_message_up st 0 = (Inl InvalidMessageMove, st)
   \<and> move_message_down st (int (length (working st)) - 1) = (Inl InvalidMessageMove, st)
   \<and> (\<exists>e. move_signal_up st msg_idx 0 = (Inl e, st))
   \<and> (\<exists>e. move_signal_down st msg_idx (int (signal_count st msg_idx) - 1) = (Inl e, st))"
proof (intro conjI)
  show "move_message_up st 0 = (Inl InvalidMessageMove, st)"
    by (simp add: move_message_up_def split: option.split)
  show "move_message_down st (int (length (working st)) - 1) = (Inl InvalidMessageMove, st)"
    by (simp add: move_message_down_def working_def split: option.split)
  show "\<exists>e. move_signal_up st msg_idx 0 = (Inl e, st)"
    by (simp add: move_signal_up_def Let_def split: option.split)
  show "\<exists>e. move_signal_down st msg_idx (int (signal_count st msg_idx) - 1) = (Inl e, st)"
    by (simp add: move_signal_down_def signal_count_def Let_def split: option.split)
qed

theorem move_at_boundary_fails_witness:
  "move_message_up loaded_AB 0 = (Inl InvalidMessageMove, loaded_AB)
   \<and> move_message_down loaded_AB 1 = (Inl InvalidMessageMove, loaded_AB)
   \<and> (\<exists>e. move_signal_up loaded_AB 1 0 = (Inl e, loaded_AB))
   \<and> (\<exists>e. move_signal_down loaded_AB 1 0 = (Inl e, loaded_AB))"
proof -
  have len: "int (length (working loaded_AB)) - 1 = 1"
    by (simp add: loaded_AB_eq working_def)
  have cnt: "int (signal_count loaded_AB 1) - 1 = 0"
    by (simp add: loaded_AB_eq signal_count_def msg_at_def)
  show ?thesis
    using move_at_boundary_fails [of loaded_AB 1] unfolding len cnt .
qed

subsection \<open>The checks on the path to load\<close>

text \<open>C9, as stated, fails for a path with an upper-case extension: \<^verbatim>\<open>AB.DBC\<close> exists and
  does not end in \<^verbatim>\<open>.dbc\<close>, and it is loaded, because the path is lower-cased before
  the test.\<close>

theorem upper_case_extension_counterexample:
  "demo_files ''AB.DBC'' \<noteq> None
   \<and> \<not> endswith ''AB.DBC'' ''.dbc''
   \<and> fst (load_dbc_file demo_env demo_files init ''AB.DBC'')
       = Inr [msg_at parsed_A 0, msg_at parsed_B 1]"
  by (simp add: load_dbc_file_def demo_files_def demo_env_def endswith_upper init_def
      msg_val_def msg_at_def parsed_A_def parsed_B_def eval_nat_numeral)
    (simp add: endswith_def)

text \<open>C9, amended. For every path, \<^verbatim>\<open>load_dbc_file\<close> fails with "not found" when the
  path does not exist, and with "bad extension" when it exists and its lower-cased form
  does not end in \<^verbatim>\<open>.dbc\<close>; in both cases the editor state is as it was. For every other
  path it fails for neither reason.\<close>

theorem load_path_checks:
  "(files path = None \<longrightarrow>
      load_dbc_file env files st path = (Inl (FailedToLoad (NotFound path)), st))
   \<and> (files path \<noteq> None \<and> \<not> endswith (lower path) ''.dbc'' \<longrightarrow>
      load_dbc_file env files st path = (Inl (FailedToLoad BadExtension), st))
   \<and> (files path \<noteq> None \<and> endswith (lower path) ''.dbc'' \<longrightarrow>
      fst (load_dbc_file env files st path) \<noteq> Inl (FailedToLoad (NotFound path))
      \<and> fst (load_dbc_file env files st path) \<noteq> Inl (FailedToLoad BadExtension))"
proof (intro conjI impI)
  assume "files path = None"
  then show "load_dbc_file env files st path = (Inl (FailedToLoad (NotFound path)), st)"
    by (simp add: load_dbc_file_def)
next
  assume "files path \<noteq> None \<and> \<not> endswith (lower path) ''.dbc''"
  then show "load_dbc_file env files st path = (Inl (FailedToLoad BadExtension), st)"
    by (auto simp: load_dbc_file_def)
next
  assume ok: "files path \<noteq> None \<and> endswith (lower path) ''.dbc''"
  then obtain content where c: "files path = Some content" by auto
  have parsed: "fst (load_dbc_file env files st path) = Inl (FailedToLoad ParseFailure)
      \<or> (\<exists>origs. fst (load_dbc_file env files st path) = Inr origs)"
    using ok c by (simp add: load_dbc_file_def Let_def split: option.split prod.split)
  from parsed show "fst (load_dbc_file env files st path) \<noteq> Inl (FailedToLoad (NotFound path))"
    by auto
  from parsed show "fst (load_dbc_file env files st path) \<noteq> Inl (FailedToLoad BadExtension)"
    by auto
qed

theorem load_path_checks_witness:
  "demo_files ''missing.dbc'' = None
   \<and> load_dbc_file demo_env demo_files init ''missing.dbc''
       = (Inl (FailedToLoad (NotFound ''missing.dbc'')), init)
   \<and> demo_files ''notes.txt'' \<noteq> None \<and> \<not> endswith (lower ''notes.txt'') ''.dbc''
   \<and> load_dbc_file demo_env demo_files init ''notes.txt''
       = (Inl (FailedToLoad BadExtension), init)
   \<and> demo_files ''m.dbc'' \<noteq> None \<and> endswith (lower ''m.dbc'') ''.dbc''
   \<and> fst (load_dbc_file demo_env demo_files init ''m.dbc'') \<noteq> Inl (FailedToLoad BadExtension)"
proof -
  have a: "demo_files ''missing.dbc'' = None" by (simp add: demo_files_def)
  have b: "demo_files ''notes.txt'' \<noteq> None \<and> \<not> endswith (lower ''notes.txt'') ''.dbc''"
    by (simp add: demo_files_def endswith_def lower_def lower_char_def)
  have c: "demo_files ''m.dbc'' \<noteq> None \<and> endswith (lower ''m.dbc'') ''.dbc''"
    by (simp add: demo_files_def endswith_m)
  from a load_path_checks [of demo_files "''missing.dbc''" demo_env init]
  have 1: "load_dbc_file demo_env demo_files init ''missing.dbc''
       = (Inl (FailedToLoad (NotFound ''missing.dbc'')), init)" by blast
  from b load_path_checks [of demo_files "''notes.txt''" demo_env init]
  have 2: "load_dbc_file demo_env demo_files init ''notes.txt''
       = (Inl (FailedToLoad BadExtension), init)" by blast
  from c load_path_checks [of demo_files "''m.dbc''" demo_env init]
  have 3: "fst (load_dbc_file demo_env demo_files init ''m.dbc'') \<noteq> Inl (FailedToLoad BadExtension)"
    by blast
  from a b c 1 2 3 show ?thesis by blast
qed

subsection \<open>No original snapshot\<close>

text \<open>C10. In every editor state whose original snapshot is absent, \<^verbatim>\<open>has_changes\<close>
  returns false whatever the working copy holds; \<^verbatim>\<open>add_message\<close> succeeds there, starting
  from an empty list when there is no working copy, and \<^verbatim>\<open>has_changes\<close> is still false
  afterwards although the working list is not empty.\<close>

theorem no_original_no_changes:
  assumes "original_data st = None"
  shows "has_changes st = False
    \<and> add_message st message =
        (Inr (), st\<lparr>modified_data := Some (working st @ [message])\<rparr>)
    \<and> working (snd (add_message st message)) \<noteq> []
    \<and> has_changes (snd (add_message st message)) = False"
  using assms by (simp add: has_changes_def add_message_def working_def split: option.split)

theorem no_original_no_changes_witness:
  "original_data init_with_list = None
   \<and> has_changes init_with_list = False
   \<and> add_message init_with_list new_message_N
       = (Inr (), init_with_list\<lparr>modified_data := Some [new_message_N]\<rparr>)
   \<and> has_changes (snd (add_message init_with_list new_message_N)) = False"
proof -
  have o: "original_data init_with_list = None"
    by (simp add: init_with_list_def new_list_def init_def)
  have w: "working init_with_list = []"
    by (simp add: working_def init_with_list_def new_list_def init_def)
  note inst = no_original_no_changes [OF o, of new_message_N, unfolded w append_Nil]
  from o inst show ?thesis by blast
qed

end
